theory Spec2Isabelle
  imports Main
begin

section \<open>Python values\<close>

text \<open>
  The repository is three Python modules: \<^verbatim>\<open>ksef_auth.py\<close> (class \<^verbatim>\<open>KSeFAuth\<close>),
  \<^verbatim>\<open>ksef_invoices.py\<close> (class \<^verbatim>\<open>KSeFInvoices\<close>) and \<^verbatim>\<open>main.py\<close>.
  A Python \<^verbatim>\<open>str\<close> is represented by an Isabelle \<open>string\<close> holding its UTF-8 bytes, so
  \<^verbatim>\<open>s.encode("utf-8")\<close> is the identity on the representation; slices such as
  \<^verbatim>\<open>text[:500]\<close> count bytes here and code points in Python, which agree on ASCII text.
  A decoded JSON document is a value of \<open>json\<close>; an object is the association list of
  the resulting \<^verbatim>\<open>dict\<close>, in insertion order. JSON numbers are restricted to integers.
\<close>

datatype json =
    JNull
  | JBool bool
  | JInt int
  | JStr string
  | JArr "json list"
  | JObj "(string \<times> json) list"

text \<open>Python truthiness: \<^verbatim>\<open>None\<close>, \<^verbatim>\<open>False\<close>, \<^verbatim>\<open>0\<close>, \<^verbatim>\<open>""\<close>, \<^verbatim>\<open>[]\<close> and \<^verbatim>\<open>{}\<close> are false.\<close>

fun truthy :: "json \<Rightarrow> bool" where
  "truthy JNull = False"
| "truthy (JBool b) = b"
| "truthy (JInt n) = (n \<noteq> 0)"
| "truthy (JStr s) = (s \<noteq> [])"
| "truthy (JArr xs) = (xs \<noteq> [])"
| "truthy (JObj kvs) = (kvs \<noteq> [])"

text \<open>\<^verbatim>\<open>a or b\<close> yields \<^verbatim>\<open>a\<close> when it is true and \<^verbatim>\<open>b\<close> otherwise.\<close>

definition py_or :: "json \<Rightarrow> json \<Rightarrow> json" where
  "py_or a b = (if truthy a then a else b)"

section \<open>Exceptions\<close>

text \<open>
  Both modules have a single exception class each, raised with a formatted message.
  The message is kept structured: one constructor for each message template of the
  source, holding the values the template interpolates.
\<close>

datatype detail = JsonDetail json | TextDetail string

datatype auth_context =
    PublicKeyContext    \<comment> \<open>\<^verbatim>\<open>"Blad pobierania klucza publicznego"\<close>\<close>
  | ChallengeContext    \<comment> \<open>\<^verbatim>\<open>"Blad pobierania challenge"\<close>\<close>
  | SendTokenContext    \<comment> \<open>\<^verbatim>\<open>"Blad wysylania tokena KSeF"\<close>\<close>
  | RedeemContext       \<comment> \<open>\<^verbatim>\<open>"Blad wymiany tokena na accessToken"\<close>\<close>
  | RefreshContext      \<comment> \<open>\<^verbatim>\<open>"Blad odswiezania accessToken"\<close>\<close>

datatype auth_failure =
    HttpStatus auth_context int detail  \<comment> \<open>\<^verbatim>\<open>f"{context} - HTTP {resp.status_code}: {detail}"\<close>\<close>
  | NoCertificates                      \<comment> \<open>\<^verbatim>\<open>"Brak certyfikatow w odpowiedzi KSeF"\<close>\<close>
  | NoCertificateData "string list"     \<comment> \<open>\<^verbatim>\<open>f"Brak danych certyfikatu. Pola: {keys}"\<close>\<close>
  | NoChallengeId "string list"         \<comment> \<open>\<^verbatim>\<open>f"Brak challenge ID. Klucze: {keys}"\<close>\<close>
  | NoAuthenticationToken "string list" \<comment> \<open>\<^verbatim>\<open>f"Brak authenticationToken. Klucze: {keys}"\<close>\<close>
  | AuthRejected json json json         \<comment> \<open>\<^verbatim>\<open>f"Uwierzytelnienie odrzucone (kod {status_code}): {desc} | {details}"\<close>\<close>
  | PollLimitExceeded                   \<comment> \<open>\<^verbatim>\<open>"Przekroczono limit prob oczekiwania na uwierzytelnienie"\<close>\<close>
  | NoAccessToken "string list" json    \<comment> \<open>\<^verbatim>\<open>f"Brak accessToken. Klucze: {keys}, wartosc: {value}"\<close>\<close>
  | NoRefreshToken                      \<comment> \<open>\<^verbatim>\<open>"Brak refreshToken - wykonaj najpierw authenticate()"\<close>\<close>
  | NoAccessTokenForHeaders             \<comment> \<open>\<^verbatim>\<open>"Brak accessToken - wykonaj najpierw authenticate()"\<close>\<close>

datatype invoice_failure =
    QueryHttpStatus int string int detail
      \<comment> \<open>\<^verbatim>\<open>f"Blad zapytania o faktury (offset={page_offset}, od={date_from}) - HTTP {status}: {detail}"\<close>\<close>
  | QueryRetryLimit int string
      \<comment> \<open>\<^verbatim>\<open>f"Blad zapytania o faktury (offset={page_offset}, od={date_from}) - przekroczono limit prob"\<close>\<close>

datatype exn =
    KSeFAuthError auth_failure
  | KSeFInvoiceError invoice_failure
  | AttributeError
  | TypeError
  | KeyError
  | ValueError
  | OverflowError
  | JSONDecodeError
  | LibraryError  \<comment> \<open>an exception raised inside \<^verbatim>\<open>base64\<close> or \<^verbatim>\<open>cryptography\<close>\<close>

section \<open>Calendar dates\<close>

text \<open>
  \<^verbatim>\<open>fetch_all\<close> works on \<^verbatim>\<open>datetime\<close> values at midnight, so a date is its year, month
  and day. Python only ever holds proper dates of the years 1 to 9999: the constructor
  refuses anything else with \<^verbatim>\<open>ValueError\<close>, and arithmetic leaving the range raises.
  The operations below give \<^verbatim>\<open>ValueError\<close> on a triple that is not a date.
\<close>

record date =
  year :: int
  month :: int
  day :: int

definition isleap :: "int \<Rightarrow> bool" where
  "isleap y = (y mod 4 = 0 \<and> (y mod 100 \<noteq> 0 \<or> y mod 400 = 0))"

definition days_in_month :: "int \<Rightarrow> int \<Rightarrow> int" where
  "days_in_month y m =
     (if m = 2 then (if isleap y then 29 else 28)
      else if m = 4 \<or> m = 6 \<or> m = 9 \<or> m = 11 then 30 else 31)"

definition MINYEAR :: int where "MINYEAR = 1"
definition MAXYEAR :: int where "MAXYEAR = 9999"

definition valid_date :: "date \<Rightarrow> bool" where
  "valid_date d = (MINYEAR \<le> year d \<and> year d \<le> MAXYEAR \<and> 1 \<le> month d \<and> month d \<le> 12
                   \<and> 1 \<le> day d \<and> day d \<le> days_in_month (year d) (month d))"

text \<open>The \<^verbatim>\<open>datetime\<close> constructor, as used by \<^verbatim>\<open>replace\<close>.\<close>

definition mk_datetime :: "int \<Rightarrow> int \<Rightarrow> int \<Rightarrow> exn + date" where
  "mk_datetime y m d =
     (let r = \<lparr>year = y, month = m, day = d\<rparr>
      in if valid_date r then Inr r else Inl ValueError)"

text \<open>Comparison of \<^verbatim>\<open>datetime\<close> values is lexicographic on year, month, day.\<close>

definition date_lt :: "date \<Rightarrow> date \<Rightarrow> bool" where
  "date_lt a b = (year a < year b \<or> (year a = year b \<and>
                   (month a < month b \<or> (month a = month b \<and> day a < day b))))"

definition date_le :: "date \<Rightarrow> date \<Rightarrow> bool" where
  "date_le a b = (date_lt a b \<or> (year a = year b \<and> month a = month b \<and> day a = day b))"

text \<open>\<^verbatim>\<open>min(a, b)\<close> returns \<^verbatim>\<open>a\<close> unless \<^verbatim>\<open>b < a\<close>.\<close>

definition date_min :: "date \<Rightarrow> date \<Rightarrow> date" where
  "date_min a b = (if date_lt b a then b else a)"

text \<open>
  \<^verbatim>\<open>dt + relativedelta(months=n)\<close> (dateutil): the month is moved, the year carried,
  the day clamped to the length of the target month, and the result built with
  \<^verbatim>\<open>dt.replace\<close>, which raises \<^verbatim>\<open>ValueError\<close> for a year beyond 9999.
\<close>

definition add_relativedelta_months :: "int \<Rightarrow> date \<Rightarrow> exn + date" where
  "add_relativedelta_months n dt =
     (if \<not> valid_date dt then Inl ValueError
      else let m0 = month dt + n;
               y1 = (if m0 > 12 then year dt + 1 else if m0 < 1 then year dt - 1 else year dt);
               m1 = (if m0 > 12 then m0 - 12 else if m0 < 1 then m0 + 12 else m0);
               d1 = min (days_in_month y1 m1) (day dt)
           in mk_datetime y1 m1 d1)"

text \<open>\<^verbatim>\<open>dt + timedelta(days=1)\<close>; past 9999-12-31 it raises \<^verbatim>\<open>OverflowError\<close>.\<close>

definition add_one_day :: "date \<Rightarrow> exn + date" where
  "add_one_day dt =
     (if \<not> valid_date dt then Inl ValueError
      else if day dt < days_in_month (year dt) (month dt) then Inr (dt\<lparr>day := day dt + 1\<rparr>)
      else if month dt < 12 then Inr (dt\<lparr>month := month dt + 1, day := 1\<rparr>)
      else if year dt < MAXYEAR then Inr \<lparr>year = year dt + 1, month = 1, day = 1\<rparr>
      else Inl OverflowError)"

text \<open>\<^verbatim>\<open>dt - timedelta(days=1)\<close>; before 0001-01-01 it raises \<^verbatim>\<open>OverflowError\<close>.\<close>

definition sub_one_day :: "date \<Rightarrow> exn + date" where
  "sub_one_day dt =
     (if \<not> valid_date dt then Inl ValueError
      else if 1 < day dt then Inr (dt\<lparr>day := day dt - 1\<rparr>)
      else if 1 < month dt
        then Inr (dt\<lparr>month := month dt - 1, day := days_in_month (year dt) (month dt - 1)\<rparr>)
      else if MINYEAR < year dt then Inr \<lparr>year = year dt - 1, month = 12, day = 31\<rparr>
      else Inl OverflowError)"

text \<open>
  The expression \<^verbatim>\<open>min(start + relativedelta(months=3) - timedelta(days=1), dt_to)\<close>,
  shared by \<^verbatim>\<open>_count_windows\<close> and \<^verbatim>\<open>fetch_all\<close>.
\<close>

definition window_end_of :: "date \<Rightarrow> date \<Rightarrow> exn + date" where
  "window_end_of start dt_to =
     (case add_relativedelta_months 3 start of
        Inl e \<Rightarrow> Inl e
      | Inr p \<Rightarrow> (case sub_one_day p of
                    Inl e \<Rightarrow> Inl e
                  | Inr q \<Rightarrow> Inr (date_min q dt_to)))"

text \<open>A number that orders proper dates as \<open>date_lt\<close> does; it measures the loops.\<close>

definition date_key :: "date \<Rightarrow> int" where
  "date_key d = (year d * 12 + month d) * 31 + day d"

definition windows_left :: "date \<Rightarrow> date \<Rightarrow> nat" where
  "windows_left start dt_to = nat ((year dt_to * 12 + 12) * 31 + 32 - date_key start)"

lemma days_in_month_bounds: "28 \<le> days_in_month y m \<and> days_in_month y m \<le> 31"
  by (simp add: days_in_month_def)

lemma valid_date_key_mono:
  assumes "valid_date a" "valid_date b"
  shows "date_lt a b \<longleftrightarrow> date_key a < date_key b"
proof -
  have da: "1 \<le> day a \<and> day a \<le> 31" "1 \<le> month a \<and> month a \<le> 12"
    using assms(1) days_in_month_bounds [of "year a" "month a"] by (auto simp: valid_date_def)
  have db: "1 \<le> day b \<and> day b \<le> 31" "1 \<le> month b \<and> month b \<le> 12"
    using assms(2) days_in_month_bounds [of "year b" "month b"] by (auto simp: valid_date_def)
  show ?thesis
    unfolding date_lt_def date_key_def using da db by auto
qed

lemma date_le_refl: "date_le a a" by (simp add: date_le_def)

lemma date_lt_trans: "date_lt a b \<Longrightarrow> date_lt b c \<Longrightarrow> date_lt a c"
  unfolding date_lt_def by linarith

lemma date_le_trans: "date_le a b \<Longrightarrow> date_le b c \<Longrightarrow> date_le a c"
  unfolding date_le_def date_lt_def by linarith

lemma date_lt_le_trans: "date_lt a b \<Longrightarrow> date_le b c \<Longrightarrow> date_lt a c"
  unfolding date_le_def date_lt_def by linarith

lemma date_le_lt_trans: "date_le a b \<Longrightarrow> date_lt b c \<Longrightarrow> date_lt a c"
  unfolding date_le_def date_lt_def by linarith

lemma date_le_total: "date_le a b \<or> date_lt b a"
  unfolding date_le_def date_lt_def by linarith

lemma date_lt_not_le: "date_lt a b \<Longrightarrow> \<not> date_le b a"
  unfolding date_le_def date_lt_def by linarith

lemma date_le_antisym: "date_le a b \<Longrightarrow> date_le b a \<Longrightarrow> (a::date) = b"
proof -
  assume "date_le a b" "date_le b a"
  then have "year a = year b \<and> month a = month b \<and> day a = day b"
    unfolding date_le_def date_lt_def by linarith
  then show "a = b" by simp
qed

lemma date_min_le: "date_le (date_min q t) t"
  using date_le_total [of q t] by (auto simp: date_min_def date_le_refl)

lemma date_min_cases: "date_min q t = q \<or> date_min q t = t"
  by (simp add: date_min_def)


lemma valid_dateD:
  assumes "valid_date d"
  shows "1 \<le> year d" "year d \<le> 9999" "1 \<le> month d" "month d \<le> 12"
        "1 \<le> day d" "day d \<le> days_in_month (year d) (month d)" "day d \<le> 31"
  using assms days_in_month_bounds [of "year d" "month d"]
  by (simp_all add: valid_date_def MINYEAR_def MAXYEAR_def)

lemma valid_dateI:
  assumes "1 \<le> y" "y \<le> 9999" "1 \<le> m" "m \<le> 12" "1 \<le> d" "d \<le> days_in_month y m"
  shows "valid_date \<lparr>year = y, month = m, day = d\<rparr>"
  using assms by (simp add: valid_date_def MINYEAR_def MAXYEAR_def)

lemma add_months3_Inr:
  assumes "add_relativedelta_months 3 s = Inr p"
  shows "valid_date s \<and> valid_date p \<and> date_lt s p"
proof -
  have v: "valid_date s"
    using assms by (simp add: add_relativedelta_months_def split: if_splits)
  note m = valid_dateD [OF v]
  show ?thesis
  proof (cases "month s + 3 > 12")
    case True
    then have "mk_datetime (year s + 1) (month s + 3 - 12)
        (min (days_in_month (year s + 1) (month s + 3 - 12)) (day s)) = Inr p"
      using assms v by (simp add: add_relativedelta_months_def Let_def)
    then have p: "valid_date p" "year p = year s + 1"
      by (auto simp: mk_datetime_def Let_def split: if_splits)
    then show ?thesis using v by (simp add: date_lt_def)
  next
    case False
    then have "mk_datetime (year s) (month s + 3)
        (min (days_in_month (year s) (month s + 3)) (day s)) = Inr p"
      using assms v m by (simp add: add_relativedelta_months_def Let_def)
    then have p: "valid_date p" "year p = year s" "month p = month s + 3"
      by (auto simp: mk_datetime_def Let_def split: if_splits)
    then show ?thesis using v by (simp add: date_lt_def)
  qed
qed

lemma add_one_day_Inr:
  assumes "add_one_day e = Inr s"
  shows "valid_date e \<and> valid_date s \<and> date_lt e s"
proof -
  have v: "valid_date e"
    using assms by (simp add: add_one_day_def split: if_splits)
  note m = valid_dateD [OF v]
  consider (d) "day e < days_in_month (year e) (month e)"
    | (m) "\<not> day e < days_in_month (year e) (month e)" "month e < 12"
    | (y) "\<not> day e < days_in_month (year e) (month e)" "\<not> month e < 12" "year e < 9999"
    | (o) "\<not> day e < days_in_month (year e) (month e)" "\<not> month e < 12" "\<not> year e < 9999"
    by blast
  then show ?thesis
  proof cases
    case d
    then have s: "s = e\<lparr>day := day e + 1\<rparr>"
      using assms v by (simp add: add_one_day_def)
    have "valid_date s"
      unfolding s using m d by (simp add: valid_date_def MINYEAR_def MAXYEAR_def)
    then show ?thesis using v by (simp add: s date_lt_def)
  next
    case m
    then have s: "s = e\<lparr>month := month e + 1, day := 1\<rparr>"
      using assms v by (simp add: add_one_day_def)
    have "valid_date s"
      unfolding s using valid_dateD [OF v] m days_in_month_bounds [of "year e" "month e + 1"]
      by (simp add: valid_date_def MINYEAR_def MAXYEAR_def)
    then show ?thesis using v by (simp add: s date_lt_def)
  next
    case y
    then have s: "s = \<lparr>year = year e + 1, month = 1, day = 1\<rparr>"
      using assms v by (simp add: add_one_day_def MAXYEAR_def)
    have "valid_date s"
      unfolding s using valid_dateD [OF v] y
      by (simp add: valid_date_def MINYEAR_def MAXYEAR_def days_in_month_def)
    then show ?thesis using v by (simp add: s date_lt_def)
  next
    case o
    then show ?thesis using assms v by (simp add: add_one_day_def MAXYEAR_def)
  qed
qed

lemma add_one_day_least:
  assumes "add_one_day e = Inr s" "valid_date t" "date_lt e t"
  shows "date_le s t"
proof -
  have v: "valid_date e"
    using assms by (simp add: add_one_day_def split: if_splits)
  note m = valid_dateD [OF v] and n = valid_dateD [OF assms(2)]
  consider (d) "day e < days_in_month (year e) (month e)"
    | (m) "\<not> day e < days_in_month (year e) (month e)" "month e < 12"
    | (y) "\<not> day e < days_in_month (year e) (month e)" "\<not> month e < 12" "year e < 9999"
    | (o) "\<not> day e < days_in_month (year e) (month e)" "\<not> month e < 12" "\<not> year e < 9999"
    by blast
  then show ?thesis
  proof cases
    case d
    then have s: "s = e\<lparr>day := day e + 1\<rparr>"
      using assms v by (simp add: add_one_day_def)
    show ?thesis using assms(3) unfolding s date_le_def date_lt_def by simp linarith
  next
    case m
    then have s: "s = e\<lparr>month := month e + 1, day := 1\<rparr>"
      using assms v by (simp add: add_one_day_def)
    have "year e = year t \<and> month e = month t \<longrightarrow> day t \<le> day e"
      using n(6) m(1) by auto
    then show ?thesis using assms(3) n(5) unfolding s date_le_def date_lt_def by simp linarith
  next
    case y
    then have s: "s = \<lparr>year = year e + 1, month = 1, day = 1\<rparr>"
      using assms v by (simp add: add_one_day_def MAXYEAR_def)
    have "year e = year t \<and> month e = month t \<longrightarrow> day t \<le> day e"
      using n(6) y(1) by auto
    then show ?thesis using assms(3) n(3,4,5) m(4) y(2) unfolding s date_le_def date_lt_def
      by simp linarith
  next
    case o
    then show ?thesis using assms v by (simp add: add_one_day_def MAXYEAR_def)
  qed
qed

lemma sub_one_day_Inr:
  assumes "sub_one_day p = Inr q"
  shows "valid_date q \<and> add_one_day q = Inr p"
proof -
  have v: "valid_date p"
    using assms by (simp add: sub_one_day_def split: if_splits)
  note m = valid_dateD [OF v]
  consider (d) "1 < day p" | (m) "\<not> 1 < day p" "1 < month p"
    | (y) "\<not> 1 < day p" "\<not> 1 < month p" "1 < year p"
    | (o) "\<not> 1 < day p" "\<not> 1 < month p" "\<not> 1 < year p"
    by blast
  then show ?thesis
  proof cases
    case d
    then have q: "q = p\<lparr>day := day p - 1\<rparr>"
      using assms v by (simp add: sub_one_day_def)
    have vq: "valid_date q"
      unfolding q using m d by (simp add: valid_date_def MINYEAR_def MAXYEAR_def)
    have "add_one_day q = Inr p"
      using vq m unfolding add_one_day_def by (simp add: q)
    with vq show ?thesis by simp
  next
    case m
    then have q: "q = p\<lparr>month := month p - 1, day := days_in_month (year p) (month p - 1)\<rparr>"
      using assms v by (simp add: sub_one_day_def)
    have vq: "valid_date q"
      unfolding q using valid_dateD [OF v] m days_in_month_bounds [of "year p" "month p - 1"]
      by (simp add: valid_date_def MINYEAR_def MAXYEAR_def)
    have "day p = 1" using valid_dateD(5) [OF v] m(1) by simp
    then have "add_one_day q = Inr p"
      using vq valid_dateD [OF v] unfolding add_one_day_def by (simp add: q)
    with vq show ?thesis by simp
  next
    case y
    then have q: "q = \<lparr>year = year p - 1, month = 12, day = 31\<rparr>"
      using assms v by (simp add: sub_one_day_def MINYEAR_def)
    have vq: "valid_date q"
      unfolding q using valid_dateD [OF v] y
      by (simp add: valid_date_def MINYEAR_def MAXYEAR_def days_in_month_def)
    have "day p = 1" "month p = 1" using valid_dateD [OF v] y by simp_all
    then have "add_one_day q = Inr p"
      using vq valid_dateD [OF v] unfolding add_one_day_def
      by (simp add: q MAXYEAR_def days_in_month_def)
    with vq show ?thesis by simp
  next
    case o
    then show ?thesis using assms v by (simp add: sub_one_day_def MINYEAR_def)
  qed
qed

lemma window_end_of_Inr:
  assumes "window_end_of start dt_to = Inr e"
  shows "valid_date start" "date_le e dt_to"
    "\<exists>p q. add_relativedelta_months 3 start = Inr p \<and> sub_one_day p = Inr q \<and> e = date_min q dt_to
       \<and> date_le start q"
proof -
  from assms obtain p q where pq: "add_relativedelta_months 3 start = Inr p"
      "sub_one_day p = Inr q" "e = date_min q dt_to"
    by (auto simp: window_end_of_def split: sum.splits)
  from add_months3_Inr [OF pq(1)] have v: "valid_date start" "valid_date p" "date_lt start p"
    by simp_all
  from sub_one_day_Inr [OF pq(2)] have q: "valid_date q" "add_one_day q = Inr p" by simp_all
  have "date_le start q"
  proof (rule ccontr)
    assume "\<not> date_le start q"
    then have "date_lt q start" using date_le_total [of start q] by simp
    from add_one_day_least [OF q(2) v(1) this] have "date_le p start" .
    with v(3) show False using date_lt_not_le by blast
  qed
  with pq show "\<exists>p q. add_relativedelta_months 3 start = Inr p \<and> sub_one_day p = Inr q \<and> e = date_min q dt_to
       \<and> date_le start q" by blast
  show "valid_date start" by fact
  show "date_le e dt_to" unfolding pq(3) by (rule date_min_le)
qed

lemma window_step:
  assumes "date_le start dt_to" "window_end_of start dt_to = Inr e" "add_one_day e = Inr start'"
  shows "valid_date start" "valid_date e" "valid_date start'" "date_le start e" "date_lt start start'"
    "date_le e dt_to"
proof -
  from window_end_of_Inr [OF assms(2)] obtain p q where
    pq: "e = date_min q dt_to" "date_le start q" and v: "valid_date start" and le: "date_le e dt_to"
    by blast
  from add_one_day_Inr [OF assms(3)] have s: "valid_date e" "valid_date start'" "date_lt e start'"
    by simp_all
  have se: "date_le start e"
    using pq assms(1) date_min_cases [of q dt_to] by auto
  show "valid_date start" "valid_date e" "valid_date start'" "date_le start e" "date_le e dt_to"
    using v s se le by simp_all
  show "date_lt start start'" using se s(3) by (rule date_le_lt_trans)
qed

lemma windows_left_decreases:
  assumes "date_le start dt_to" "window_end_of start dt_to = Inr e" "add_one_day e = Inr start'"
  shows "windows_left start' dt_to < windows_left start dt_to"
proof -
  note w = window_step [OF assms]
  have k: "date_key start < date_key start'"
    using valid_date_key_mono [OF w(1) w(3)] w(5) by simp
  have "year start \<le> year dt_to"
    using assms(1) unfolding date_le_def date_lt_def by linarith
  then have "year start * 12 \<le> year dt_to * 12" by simp
  then have "date_key start < (year dt_to * 12 + 12) * 31 + 32"
    using valid_dateD [OF w(1)] unfolding date_key_def by simp
  with k show ?thesis unfolding windows_left_def by simp
qed

subsection \<open>The window loops\<close>

text \<open>
  \<^verbatim>\<open>_count_windows\<close>: the loop of lines 117 to 120, with \<^verbatim>\<open>count\<close> as an argument.
\<close>

function count_windows_loop :: "int \<Rightarrow> date \<Rightarrow> date \<Rightarrow> exn + int" where
  "count_windows_loop count start dt_to =
     (if date_le start dt_to then
        (case window_end_of start dt_to of
           Inl e \<Rightarrow> Inl e
         | Inr window_end \<Rightarrow>
             (case add_one_day window_end of
                Inl e \<Rightarrow> Inl e
              | Inr start' \<Rightarrow> count_windows_loop (count + 1) start' dt_to))
      else Inr count)"
  by pat_completeness auto
termination
  by (relation "measure (\<lambda>(count, start, dt_to). windows_left start dt_to)")
     (simp_all add: windows_left_decreases)

declare count_windows_loop.simps [simp del]

definition count_windows :: "date \<Rightarrow> date \<Rightarrow> exn + int" where
  "count_windows dt_from dt_to = count_windows_loop 0 dt_from dt_to"

text \<open>
  The windows \<^verbatim>\<open>(window_start, window_end)\<close> that the loop of \<^verbatim>\<open>fetch_all\<close> (lines 148 to
  158) computes, in order: the loop with the fetching taken out. \<open>fetch_all_loop\<close>
  below is the loop itself, and \<open>fetch_all_loop_windows\<close> relates the two.
\<close>

function date_windows :: "date \<Rightarrow> date \<Rightarrow> exn + (date \<times> date) list" where
  "date_windows window_start dt_to =
     (if date_le window_start dt_to then
        (case window_end_of window_start dt_to of
           Inl e \<Rightarrow> Inl e
         | Inr window_end \<Rightarrow>
             (case add_one_day window_end of
                Inl e \<Rightarrow> Inl e
              | Inr start' \<Rightarrow>
                  (case date_windows start' dt_to of
                     Inl e \<Rightarrow> Inl e
                   | Inr ws \<Rightarrow> Inr ((window_start, window_end) # ws))))
      else Inr [])"
  by pat_completeness auto
termination
  by (relation "measure (\<lambda>(start, dt_to). windows_left start dt_to)")
     (simp_all add: windows_left_decreases)

declare date_windows.simps [simp del]

text \<open>
  The spec's bound on a window, "at most three calendar months minus one day", read on
  the calendar: the end is not before the start, and lies strictly before the day of
  the same number three months after the start.
\<close>

definition spans_under_three_months :: "date \<Rightarrow> date \<Rightarrow> bool" where
  "spans_under_three_months a b =
     (date_le a b \<and>
      (12 * year b + month b < 12 * year a + month a + 3 \<or>
       (12 * year b + month b = 12 * year a + month a + 3 \<and> day b < day a)))"

lemma date_windows_cases:
  assumes "date_windows s t = Inr ws"
  shows "(\<not> date_le s t \<and> ws = []) \<or>
         (date_le s t \<and> (\<exists>e s' ws'. window_end_of s t = Inr e \<and> add_one_day e = Inr s'
            \<and> date_windows s' t = Inr ws' \<and> ws = (s, e) # ws'))"
  using assms by (subst (asm) date_windows.simps) (auto split: if_splits sum.splits)

lemma date_lt_imp_le: "date_lt a b \<Longrightarrow> date_le a b"
  by (simp add: date_le_def)

lemma date_windows_bounds:
  "date_windows s t = Inr ws \<Longrightarrow>
     list_all (\<lambda>(a, b). date_le s a \<and> date_le a b \<and> date_le b t \<and> valid_date a \<and> valid_date b) ws"
proof (induction s t arbitrary: ws rule: date_windows.induct)
  case (1 s t)
  from date_windows_cases [OF "1.prems"] show ?case
  proof (elim disjE conjE exE)
    assume "ws = []" then show ?thesis by simp
  next
    fix e s' ws'
    assume h: "date_le s t" "window_end_of s t = Inr e" "add_one_day e = Inr s'"
      "date_windows s' t = Inr ws'" "ws = (s, e) # ws'"
    note w = window_step [OF h(1,2,3)]
    have ih: "list_all (\<lambda>(a, b). date_le s' a \<and> date_le a b \<and> date_le b t \<and> valid_date a \<and> valid_date b) ws'"
      using "1.IH" [OF h(1,2,3,4)] .
    have "date_le s s'" using w(5) by (rule date_lt_imp_le)
    then have "\<And>a. date_le s' a \<Longrightarrow> date_le s a" by (rule date_le_trans)
    then have "list_all (\<lambda>(a, b). date_le s a \<and> date_le a b \<and> date_le b t \<and> valid_date a \<and> valid_date b) ws'"
      using ih unfolding list_all_iff by fast
    then show ?thesis using w by (simp add: h(5) date_le_refl)
  qed
qed

lemma date_windows_contiguous:
  "date_windows s t = Inr ws \<Longrightarrow>
     successively (\<lambda>a b. add_one_day (snd a) = Inr (fst b)) ws"
proof (induction s t arbitrary: ws rule: date_windows.induct)
  case (1 s t)
  from date_windows_cases [OF "1.prems"] show ?case
  proof (elim disjE conjE exE)
    assume "ws = []" then show ?thesis by simp
  next
    fix e s' ws'
    assume h: "date_le s t" "window_end_of s t = Inr e" "add_one_day e = Inr s'"
      "date_windows s' t = Inr ws'" "ws = (s, e) # ws'"
    have ih: "successively (\<lambda>a b. add_one_day (snd a) = Inr (fst b)) ws'"
      using "1.IH" [OF h(1,2,3,4)] .
    show ?thesis
    proof (cases ws')
      case Nil
      then show ?thesis by (simp add: h(5))
    next
      case (Cons w ws'')
      with date_windows_cases [OF h(4)] have "fst w = s'" by auto
      then show ?thesis using ih h(3) by (simp add: h(5) Cons)
    qed
  qed
qed

lemma date_windows_disjoint:
  "date_windows s t = Inr ws \<Longrightarrow> sorted_wrt (\<lambda>a b. date_lt (snd a) (fst b)) ws"
proof (induction s t arbitrary: ws rule: date_windows.induct)
  case (1 s t)
  from date_windows_cases [OF "1.prems"] show ?case
  proof (elim disjE conjE exE)
    assume "ws = []" then show ?thesis by simp
  next
    fix e s' ws'
    assume h: "date_le s t" "window_end_of s t = Inr e" "add_one_day e = Inr s'"
      "date_windows s' t = Inr ws'" "ws = (s, e) # ws'"
    have ih: "sorted_wrt (\<lambda>a b. date_lt (snd a) (fst b)) ws'"
      using "1.IH" [OF h(1,2,3,4)] .
    have es: "date_lt e s'" using add_one_day_Inr [OF h(3)] by simp
    have "\<And>a. date_le s' a \<Longrightarrow> date_lt e a" using es by (rule date_lt_le_trans)
    then have "\<forall>x\<in>set ws'. date_lt e (fst x)"
      using date_windows_bounds [OF h(4)] unfolding list_all_iff by fastforce
    then show ?thesis using ih by (simp add: h(5))
  qed
qed

lemma date_windows_ends:
  "date_windows s t = Inr ws \<Longrightarrow> valid_date t \<Longrightarrow> date_le s t \<Longrightarrow>
     ws \<noteq> [] \<and> fst (hd ws) = s \<and> snd (last ws) = t"
proof (induction s t arbitrary: ws rule: date_windows.induct)
  case (1 s t)
  from date_windows_cases [OF "1.prems"(1)] "1.prems"(3)
  obtain e s' ws' where h: "date_le s t" "window_end_of s t = Inr e" "add_one_day e = Inr s'"
      "date_windows s' t = Inr ws'" "ws = (s, e) # ws'"
    by blast
  note w = window_step [OF h(1,2,3)]
  show ?case
  proof (cases "date_le s' t")
    case True
    from "1.IH" [OF h(1,2,3,4) "1.prems"(2) True] show ?thesis by (simp add: h(5))
  next
    case False
    with date_windows_cases [OF h(4)] have nil: "ws' = []" by auto
    have "\<not> date_lt e t"
      using add_one_day_least [OF h(3) "1.prems"(2)] False by blast
    then have "date_le t e" using date_le_total [of t e] by simp
    with w(6) have "e = t" by (rule date_le_antisym)
    then show ?thesis by (simp add: h(5) nil)
  qed
qed

lemma window_end_spans:
  assumes "date_le s t" "window_end_of s t = Inr e" "add_one_day e = Inr s'"
  shows "spans_under_three_months s e"
proof -
  from window_end_of_Inr(3) [OF assms(2)] obtain p q where
    pq: "add_relativedelta_months 3 s = Inr p" "sub_one_day p = Inr q" "e = date_min q t"
    by blast
  note w = window_step [OF assms]
  have "date_le e q" unfolding pq(3) by (simp add: date_min_def date_le_refl date_lt_imp_le)
  moreover have "date_lt q p" using sub_one_day_Inr [OF pq(2)] add_one_day_Inr [of q p] by simp
  ultimately have ep: "date_lt e p" by (rule date_le_lt_trans)
  note vs = valid_dateD [OF w(1)] and ve = valid_dateD [OF w(2)]
  have p: "12 * year p + month p = 12 * year s + month s + 3" "day p \<le> day s"
    using pq(1) w(1) vs
    by (auto simp: add_relativedelta_months_def mk_datetime_def Let_def split: if_splits)
  have vp: "valid_date p" using add_months3_Inr [OF pq(1)] by simp
  note vpp = valid_dateD [OF vp]
  have "12 * year e + month e < 12 * year p + month p \<or>
        (12 * year e + month e = 12 * year p + month p \<and> day e < day p)"
    using ep ve(3,4) vpp(3,4) unfolding date_lt_def by linarith
  then show ?thesis unfolding spans_under_three_months_def using w(4) p by linarith
qed

lemma date_windows_spans:
  "date_windows s t = Inr ws \<Longrightarrow> list_all (\<lambda>(a, b). spans_under_three_months a b) ws"
proof (induction s t arbitrary: ws rule: date_windows.induct)
  case (1 s t)
  from date_windows_cases [OF "1.prems"] show ?case
  proof (elim disjE conjE exE)
    assume "ws = []" then show ?thesis by simp
  next
    fix e s' ws'
    assume h: "date_le s t" "window_end_of s t = Inr e" "add_one_day e = Inr s'"
      "date_windows s' t = Inr ws'" "ws = (s, e) # ws'"
    show ?thesis
      using "1.IH" [OF h(1,2,3,4)] window_end_spans [OF h(1,2,3)] by (simp add: h(5))
  qed
qed

lemma date_windows_total:
  "valid_date s \<Longrightarrow> valid_date t \<Longrightarrow> year t < 9999 \<Longrightarrow> \<exists>ws. date_windows s t = Inr ws"
proof (induction s t rule: date_windows.induct)
  case (1 s t)
  show ?case
  proof (cases "date_le s t")
    case False
    then show ?thesis by (subst date_windows.simps) simp
  next
    case True
    note vs = valid_dateD [OF "1.prems"(1)] and vt = valid_dateD [OF "1.prems"(2)]
    have ys: "year s < 9999" using True "1.prems"(3) unfolding date_le_def date_lt_def by linarith
    have "\<exists>p. add_relativedelta_months 3 s = Inr p"
    proof (cases "month s + 3 > 12")
      case True
      have "valid_date \<lparr>year = year s + 1, month = month s + 3 - 12,
              day = min (days_in_month (year s + 1) (month s + 3 - 12)) (day s)\<rparr>"
        using vs ys True days_in_month_bounds [of "year s + 1" "month s + 3 - 12"]
        by (intro valid_dateI) auto
      then show ?thesis using True "1.prems"(1)
        by (simp add: add_relativedelta_months_def mk_datetime_def Let_def)
    next
      case False
      have "valid_date \<lparr>year = year s, month = month s + 3,
              day = min (days_in_month (year s) (month s + 3)) (day s)\<rparr>"
        using vs False days_in_month_bounds [of "year s" "month s + 3"]
        by (intro valid_dateI) auto
      then show ?thesis using False "1.prems"(1) vs
        by (simp add: add_relativedelta_months_def mk_datetime_def Let_def)
    qed
    then obtain p where p: "add_relativedelta_months 3 s = Inr p" ..
    note ap = add_months3_Inr [OF p]
    note vp = valid_dateD [of p]
    have "1 < day p \<or> 1 < month p \<or> 1 < year p"
      using ap vs vp unfolding date_lt_def by linarith
    then have "\<exists>q. sub_one_day p = Inr q"
      using ap by (auto simp: sub_one_day_def MINYEAR_def)
    then obtain q where q: "sub_one_day p = Inr q" ..
    define e where "e = date_min q t"
    have we: "window_end_of s t = Inr e" by (simp add: window_end_of_def p q e_def)
    have vq: "valid_date q" using sub_one_day_Inr [OF q] by simp
    have ve: "valid_date e" using vq "1.prems"(2) by (simp add: e_def date_min_def)
    have "date_le e t" unfolding e_def by (rule date_min_le)
    then have ye: "year e < 9999" using "1.prems"(3) unfolding date_le_def date_lt_def by linarith
    have "\<exists>s'. add_one_day e = Inr s'"
      using ve ye by (simp add: add_one_day_def MAXYEAR_def)
    then obtain s' where s': "add_one_day e = Inr s'" ..
    have "valid_date s'" using add_one_day_Inr [OF s'] by simp
    from "1.IH" [OF True we s' this "1.prems"(2,3)] obtain ws' where "date_windows s' t = Inr ws'" ..
    then show ?thesis using True we s' by (subst date_windows.simps) simp
  qed
qed

section \<open>Strings and numbers\<close>

definition digit_char :: "int \<Rightarrow> char" where
  "digit_char d = ''0123456789'' ! nat d"

function str_digits :: "int \<Rightarrow> string" where
  "str_digits n = (if n < 10 then [digit_char n] else str_digits (n div 10) @ [digit_char (n mod 10)])"
  by pat_completeness auto
termination
  by (relation "measure nat") auto

declare str_digits.simps [simp del]

text \<open>\<^verbatim>\<open>str(n)\<close> of an integer.\<close>

definition str_int :: "int \<Rightarrow> string" where
  "str_int n = (if n < 0 then CHR ''-'' # str_digits (- n) else str_digits n)"

text \<open>A number zero-padded to a width, as \<^verbatim>\<open>strftime\<close> prints the fields of a date.\<close>

definition zero_pad :: "nat \<Rightarrow> int \<Rightarrow> string" where
  "zero_pad width n = (let s = str_int n in replicate (width - length s) CHR ''0'' @ s)"

text \<open>
  \<^verbatim>\<open>int(s)\<close> of a string: surrounding whitespace is dropped, a sign is read, and the rest
  must be decimal digits, single underscores allowed between them; anything else is a
  \<^verbatim>\<open>ValueError\<close>. Only ASCII whitespace and digits are modelled.
\<close>

definition is_space :: "char \<Rightarrow> bool" where
  "is_space c = (c \<in> set [CHR '' '', CHR 0x09, CHR 0x0A, CHR 0x0B, CHR 0x0C, CHR 0x0D,
                            CHR 0x1C, CHR 0x1D, CHR 0x1E, CHR 0x1F])"

definition is_digit :: "char \<Rightarrow> bool" where
  "is_digit c = (c \<in> set ''0123456789'')"

definition digit_value :: "char \<Rightarrow> int" where
  "digit_value c = int (length (takeWhile (\<lambda>d. d \<noteq> c) ''0123456789''))"

fun digits_ok :: "string \<Rightarrow> bool" where
  "digits_ok [] = False"
| "digits_ok [c] = is_digit c"
| "digits_ok (c # d # r) =
     (is_digit c \<and> (if d = CHR ''_'' then digits_ok r else digits_ok (d # r)))"

definition digits_value :: "string \<Rightarrow> int" where
  "digits_value s = foldl (\<lambda>acc c. acc * 10 + digit_value c) 0 (filter (\<lambda>c. c \<noteq> CHR ''_'') s)"

definition strip :: "string \<Rightarrow> string" where
  "strip s = rev (dropWhile is_space (rev (dropWhile is_space s)))"

definition int_of_str :: "string \<Rightarrow> exn + int" where
  "int_of_str s =
     (let t = strip s;
          neg = (t \<noteq> [] \<and> hd t = CHR ''-'');
          u = (if t \<noteq> [] \<and> (hd t = CHR ''-'' \<or> hd t = CHR ''+'') then tl t else t)
      in if digits_ok u then Inr (if neg then - digits_value u else digits_value u)
         else Inl ValueError)"

section \<open>HTTP transport, clock and libraries\<close>

text \<open>
  A response of \<^verbatim>\<open>requests\<close>: \<open>JsonBody j\<close> is a body that \<^verbatim>\<open>resp.json()\<close> decodes to
  \<open>j\<close>, \<open>TextBody t\<close> a body with text \<open>t\<close> that is not JSON. Header names are looked up
  as they are stored (\<^verbatim>\<open>requests\<close> ignores their case).
\<close>

datatype body = JsonBody json | TextBody string

record http_response =
  status_code :: int
  headers :: "(string \<times> string) list"
  body :: body

text \<open>\<^verbatim>\<open>resp.ok\<close>: false exactly for the statuses 400 to 599.\<close>

definition ok :: "http_response \<Rightarrow> bool" where
  "ok resp = (\<not> (400 \<le> status_code resp \<and> status_code resp < 600))"

definition resp_json :: "http_response \<Rightarrow> exn + json" where
  "resp_json resp = (case body resp of JsonBody j \<Rightarrow> Inr j | TextBody t \<Rightarrow> Inl JSONDecodeError)"

record http_request =
  req_method :: string
  req_url :: string
  req_headers :: "(string \<times> string) list"
  req_params :: "(string \<times> json) list"
  req_json :: "json option"
  req_timeout :: int

text \<open>
  What a run does to the outside is a trace of requests and sleeps (in milliseconds).
  The server is a script: the replies of the authentication endpoints and of the invoice
  query endpoint, each in the order they will be given. A request takes the next reply
  of its script. When the script is used up the run has no result (\<open>None\<close>): it is
  waiting for a reply that the script does not hold. So a finite script bounds a run,
  and a run that never ends is one that has no result on any finite script.
\<close>

datatype event = Request http_request | Sleep int

datatype peer = AuthAPI | QueryAPI

record world =
  auth_replies :: "http_response list"
  query_replies :: "http_response list"
  trace :: "event list"
  clock_ms :: int
  seeds :: "nat list"

definition http_send :: "peer \<Rightarrow> http_request \<Rightarrow> world \<Rightarrow> http_response option \<times> world" where
  "http_send p rq w =
     (let w' = w\<lparr>trace := trace w @ [Request rq]\<rparr>
      in case p of
           AuthAPI \<Rightarrow> (case auth_replies w of
                         [] \<Rightarrow> (None, w')
                       | r # rs \<Rightarrow> (Some r, w'\<lparr>auth_replies := rs\<rparr>))
         | QueryAPI \<Rightarrow> (case query_replies w of
                          [] \<Rightarrow> (None, w')
                        | r # rs \<Rightarrow> (Some r, w'\<lparr>query_replies := rs\<rparr>)))"

text \<open>\<^verbatim>\<open>time.sleep\<close>, for a duration that is not negative.\<close>

definition sleep :: "int \<Rightarrow> world \<Rightarrow> world" where
  "sleep ms w = w\<lparr>trace := trace w @ [Sleep ms], clock_ms := clock_ms w + ms\<rparr>"

text \<open>
  The libraries the code calls are parameters: \<^verbatim>\<open>base64\<close>, the key loaders and the
  RSA encryption of \<^verbatim>\<open>cryptography\<close> (which draws a random seed), and Python's
  \<^verbatim>\<open>repr\<close> of a list or dict. \<open>'k\<close> is the type of public keys.
\<close>

datatype hash_algorithm = SHA1 | SHA256 | SHA512

datatype mgf = MGF1 hash_algorithm

datatype padding = PKCS1v15 | OAEP mgf hash_algorithm "string option"

record 'k library =
  b64decode :: "string \<Rightarrow> string option"
  b64encode :: "string \<Rightarrow> string"
  load_der_public_key :: "string \<Rightarrow> 'k option"
  load_der_x509_certificate :: "string \<Rightarrow> 'k option"
  encrypt :: "'k \<Rightarrow> padding \<Rightarrow> nat \<Rightarrow> string \<Rightarrow> string option"
  repr :: "json \<Rightarrow> string"

text \<open>\<^verbatim>\<open>str(x)\<close>, as an f-string formats a value.\<close>

definition py_str :: "'k library \<Rightarrow> json \<Rightarrow> string" where
  "py_str lib x =
     (case x of
        JStr s \<Rightarrow> s
      | JInt n \<Rightarrow> str_int n
      | JBool b \<Rightarrow> (if b then ''True'' else ''False'')
      | JNull \<Rightarrow> ''None''
      | _ \<Rightarrow> repr lib x)"

text \<open>\<^verbatim>\<open>d.get(k, default)\<close>; a value that is no dict has no \<^verbatim>\<open>get\<close>.\<close>

definition lookup :: "(string \<times> json) list \<Rightarrow> string \<Rightarrow> json \<Rightarrow> json" where
  "lookup kvs k dflt = (case map_of kvs k of Some v \<Rightarrow> v | None \<Rightarrow> dflt)"

definition dict_get :: "json \<Rightarrow> string \<Rightarrow> json \<Rightarrow> exn + json" where
  "dict_get d k dflt = (case d of JObj kvs \<Rightarrow> Inr (lookup kvs k dflt) | _ \<Rightarrow> Inl AttributeError)"

text \<open>\<^verbatim>\<open>d[k] = v\<close> on a dict.\<close>

definition dict_set :: "(string \<times> json) list \<Rightarrow> string \<Rightarrow> json \<Rightarrow> (string \<times> json) list" where
  "dict_set kvs k v =
     (if k \<in> fst ` set kvs then map (\<lambda>(k', v'). if k' = k then (k', v) else (k', v')) kvs
      else kvs @ [(k, v)])"

text \<open>Sequencing of steps that may raise.\<close>

definition and_then :: "exn + 'a \<Rightarrow> ('a \<Rightarrow> exn + 'b) \<Rightarrow> exn + 'b" where
  "and_then r f = (case r of Inl e \<Rightarrow> Inl e | Inr x \<Rightarrow> f x)"

text \<open>The error body of both \<^verbatim>\<open>_raise_for_status\<close>: the JSON if it decodes, else 500 characters.\<close>

definition error_detail :: "http_response \<Rightarrow> detail" where
  "error_detail resp = (case body resp of JsonBody j \<Rightarrow> JsonDetail j | TextBody t \<Rightarrow> TextDetail (take 500 t))"

section \<open>\<^verbatim>\<open>ksef_auth.py\<close>: class \<^verbatim>\<open>KSeFAuth\<close>\<close>

definition BASE_URLS :: "(string \<times> string) list" where
  "BASE_URLS = [(''test'', ''https://api-test.ksef.mf.gov.pl/api/v2''),
                (''prod'', ''https://api.ksef.mf.gov.pl/api/v2'')]"

definition HEADERS :: "(string \<times> string) list" where
  "HEADERS = [(''Content-Type'', ''application/json''), (''Accept'', ''application/json'')]"

text \<open>\<^verbatim>\<open>BASE_URLS.get(env, BASE_URLS["test"])\<close>, used by \<^verbatim>\<open>KSeFAuth.__init__\<close> and by \<^verbatim>\<open>main.py\<close>.\<close>

definition base_url_for :: "string \<Rightarrow> string" where
  "base_url_for env =
     (case map_of BASE_URLS env of
        Some u \<Rightarrow> u
      | None \<Rightarrow> (case map_of BASE_URLS ''test'' of Some u \<Rightarrow> u | None \<Rightarrow> []))"

text \<open>The tokens are whatever the server's JSON held, \<open>JNull\<close> for \<^verbatim>\<open>None\<close>.\<close>

record ksef_auth =
  nip :: string
  ksef_token :: string
  base_url :: string
  access_token :: json
  refresh_token :: json

definition KSeFAuth :: "string \<Rightarrow> string \<Rightarrow> string \<Rightarrow> ksef_auth" where
  "KSeFAuth nip' ksef_token' env =
     \<lparr>nip = nip', ksef_token = ksef_token', base_url = base_url_for env,
      access_token = JNull, refresh_token = JNull\<rparr>"

text \<open>\<^verbatim>\<open>main.py\<close>, line 53: \<^verbatim>\<open>BASE_URL = BASE_URLS.get(ENV, BASE_URLS["test"])\<close> on its own copy of the table.\<close>

definition BASE_URL :: "string \<Rightarrow> string" where
  "BASE_URL ENV = base_url_for ENV"

definition auth_raise_for_status :: "http_response \<Rightarrow> auth_context \<Rightarrow> exn + unit" where
  "auth_raise_for_status resp context =
     (if \<not> ok resp
      then Inl (KSeFAuthError (HttpStatus context (status_code resp) (error_detail resp)))
      else Inr ())"

text \<open>An HTTP call of \<^verbatim>\<open>KSeFAuth\<close> followed by what the method does with the response.\<close>

definition auth_call ::
  "http_request \<Rightarrow> (http_response \<Rightarrow> exn + 'a) \<Rightarrow> world \<Rightarrow> (exn + 'a) option \<times> world" where
  "auth_call rq handle w =
     (case http_send AuthAPI rq w of
        (None, w') \<Rightarrow> (None, w')
      | (Some resp, w') \<Rightarrow> (Some (handle resp), w'))"

text \<open>\<^verbatim>\<open>_get_public_key\<close>, lines 42 to 55, after the request.\<close>

definition public_key_of_response :: "'k library \<Rightarrow> http_response \<Rightarrow> exn + string" where
  "public_key_of_response lib resp =
     and_then (auth_raise_for_status resp PublicKeyContext) (\<lambda>_.
     and_then (resp_json resp) (\<lambda>data.
     and_then (case data of JArr xs \<Rightarrow> Inr data | _ \<Rightarrow> dict_get data ''certificates'' (JArr [])) (\<lambda>certificates.
       if \<not> truthy certificates then Inl (KSeFAuthError NoCertificates)
       else and_then (case certificates of
                        JArr xs \<Rightarrow> Inr (hd xs)
                      | JStr s \<Rightarrow> Inr (JStr [hd s])
                      | JObj kvs \<Rightarrow> Inl KeyError
                      | _ \<Rightarrow> Inl TypeError) (\<lambda>first.
            case first of
              JObj kvs \<Rightarrow>
                (let der_b64 = py_or (py_or (py_or (lookup kvs ''certificate'' JNull)
                                                   (lookup kvs ''value'' JNull))
                                            (lookup kvs ''publicKey'' JNull))
                                     (JStr [])
                 in if \<not> truthy der_b64 then Inl (KSeFAuthError (NoCertificateData (map fst kvs)))
                    else (case der_b64 of
                            JStr s \<Rightarrow> (case b64decode lib s of
                                         Some der \<Rightarrow> Inr der
                                       | None \<Rightarrow> Inl LibraryError)
                          | _ \<Rightarrow> Inl TypeError))
            | _ \<Rightarrow> Inl AttributeError))))"

definition get_public_key :: "'k library \<Rightarrow> ksef_auth \<Rightarrow> world \<Rightarrow> (exn + string) option \<times> world" where
  "get_public_key lib self w =
     auth_call \<lparr>req_method = ''GET'', req_url = base_url self @ ''/security/public-key-certificates'',
                req_headers = HEADERS, req_params = [], req_json = None, req_timeout = 30\<rparr>
       (public_key_of_response lib) w"

definition get_challenge :: "ksef_auth \<Rightarrow> world \<Rightarrow> (exn + json) option \<times> world" where
  "get_challenge self w =
     auth_call \<lparr>req_method = ''POST'', req_url = base_url self @ ''/auth/challenge'',
                req_headers = HEADERS, req_params = [], req_json = Some (JObj []), req_timeout = 30\<rparr>
       (\<lambda>resp. and_then (auth_raise_for_status resp ChallengeContext) (\<lambda>_. resp_json resp)) w"

text \<open>The padding of line 75.\<close>

definition token_padding :: padding where
  "token_padding = OAEP (MGF1 SHA256) SHA256 None"

text \<open>The plaintext of line 66: \<^verbatim>\<open>f"{self.ksef_token}|{timestamp_ms}".encode("utf-8")\<close>.\<close>

definition token_plaintext :: "'k library \<Rightarrow> ksef_auth \<Rightarrow> json \<Rightarrow> string" where
  "token_plaintext lib self timestamp_ms = ksef_token self @ ''|'' @ py_str lib timestamp_ms"

text \<open>The seed that the encryption draws from the operating system.\<close>

definition next_seed :: "world \<Rightarrow> nat \<times> world" where
  "next_seed w = (case seeds w of [] \<Rightarrow> (0, w) | s # ss \<Rightarrow> (s, w\<lparr>seeds := ss\<rparr>))"

text \<open>
  Lines 67 to 72: the bytes are read as a public key and, when that fails, as a
  certificate whose public key is taken.
\<close>

definition load_public_key :: "'k library \<Rightarrow> string \<Rightarrow> 'k option" where
  "load_public_key lib public_key_der =
     (case load_der_public_key lib public_key_der of
        Some k \<Rightarrow> Some k
      | None \<Rightarrow> load_der_x509_certificate lib public_key_der)"

definition encrypt_token ::
  "'k library \<Rightarrow> ksef_auth \<Rightarrow> string \<Rightarrow> json \<Rightarrow> world \<Rightarrow> (exn + string) \<times> world" where
  "encrypt_token lib self public_key_der timestamp_ms w =
     (let plaintext = token_plaintext lib self timestamp_ms
      in case load_public_key lib public_key_der of
           None \<Rightarrow> (Inl LibraryError, w)
         | Some public_key \<Rightarrow>
             (case next_seed w of (seed, w') \<Rightarrow>
                (case encrypt lib public_key token_padding seed plaintext of
                   None \<Rightarrow> (Inl LibraryError, w')
                 | Some encrypted \<Rightarrow> (Inr (b64encode lib encrypted), w'))))"

definition send_ksef_token :: "ksef_auth \<Rightarrow> json \<Rightarrow> string \<Rightarrow> world \<Rightarrow> (exn + json) option \<times> world" where
  "send_ksef_token self challenge encrypted_token w =
     auth_call \<lparr>req_method = ''POST'', req_url = base_url self @ ''/auth/ksef-token'',
                req_headers = HEADERS, req_params = [],
                req_json = Some (JObj [(''challenge'', challenge),
                  (''contextIdentifier'', JObj [(''type'', JStr ''Nip''), (''value'', JStr (nip self))]),
                  (''encryptedToken'', JStr encrypted_token)]),
                req_timeout = 30\<rparr>
       (\<lambda>resp. and_then (auth_raise_for_status resp SendTokenContext) (\<lambda>_. resp_json resp)) w"

text \<open>\<^verbatim>\<open>x >= n\<close> for a JSON value \<^verbatim>\<open>x\<close>: defined on numbers (and booleans) only.\<close>

definition py_ge_int :: "json \<Rightarrow> int \<Rightarrow> exn + bool" where
  "py_ge_int x n =
     (case x of
        JInt i \<Rightarrow> Inr (n \<le> i)
      | JBool b \<Rightarrow> Inr (n \<le> (if b then 1 else 0))
      | _ \<Rightarrow> Inl TypeError)"

text \<open>
  One round of \<^verbatim>\<open>_wait_for_auth\<close>, lines 105 to 123, on the response of a poll:
  \<open>Inr True\<close> is the \<^verbatim>\<open>return\<close> of line 113, \<open>Inr False\<close> falls through to the sleep
  of line 125.
\<close>

definition poll_response :: "http_response \<Rightarrow> exn + bool" where
  "poll_response resp =
     (if status_code resp = 200 then
        and_then (resp_json resp) (\<lambda>data.
        and_then (dict_get data ''status'' (JObj [])) (\<lambda>status_obj.
        and_then (dict_get status_obj ''code'' (JInt 0)) (\<lambda>status_code'.
          if status_code' = JInt 200 then Inr True
          else and_then (py_ge_int status_code' 400) (\<lambda>rejected.
                 if rejected then
                   and_then (dict_get status_obj ''description'' (JStr [])) (\<lambda>desc.
                   and_then (dict_get status_obj ''details'' (JArr [])) (\<lambda>details.
                     Inl (KSeFAuthError (AuthRejected status_code' desc details))))
                 else Inr False))))
      else Inr False)"

function wait_for_auth_loop ::
  "http_request \<Rightarrow> nat \<Rightarrow> nat \<Rightarrow> world \<Rightarrow> (exn + unit) option \<times> world" where
  "wait_for_auth_loop rq attempt max_retries w =
     (if max_retries < attempt then (Some (Inl (KSeFAuthError PollLimitExceeded)), w)
      else (case http_send AuthAPI rq w of
              (None, w') \<Rightarrow> (None, w')
            | (Some resp, w') \<Rightarrow>
                (case poll_response resp of
                   Inl e \<Rightarrow> (Some (Inl e), w')
                 | Inr True \<Rightarrow> (Some (Inr ()), w')
                 | Inr False \<Rightarrow> wait_for_auth_loop rq (attempt + 1) max_retries (sleep 1500 w'))))"
  by pat_completeness auto
termination
  by (relation "measure (\<lambda>(rq, attempt, max_retries, w). Suc max_retries - attempt)") auto

declare wait_for_auth_loop.simps [simp del]

definition bearer_headers :: "'k library \<Rightarrow> json \<Rightarrow> (string \<times> string) list" where
  "bearer_headers lib auth_token = HEADERS @ [(''Authorization'', ''Bearer '' @ py_str lib auth_token)]"

definition wait_for_auth ::
  "'k library \<Rightarrow> ksef_auth \<Rightarrow> json \<Rightarrow> json \<Rightarrow> world \<Rightarrow> (exn + unit) option \<times> world" where
  "wait_for_auth lib self reference_number auth_token w =
     wait_for_auth_loop
       \<lparr>req_method = ''GET'', req_url = base_url self @ ''/auth/'' @ py_str lib reference_number,
        req_headers = bearer_headers lib auth_token, req_params = [], req_json = None,
        req_timeout = 30\<rparr>
       1 15 w"

definition redeem_token :: "'k library \<Rightarrow> ksef_auth \<Rightarrow> json \<Rightarrow> world \<Rightarrow> (exn + json) option \<times> world" where
  "redeem_token lib self auth_token w =
     auth_call \<lparr>req_method = ''POST'', req_url = base_url self @ ''/auth/token/redeem'',
                req_headers = bearer_headers lib auth_token, req_params = [],
                req_json = Some (JObj []), req_timeout = 30\<rparr>
       (\<lambda>resp. and_then (auth_raise_for_status resp RedeemContext) (\<lambda>_. resp_json resp)) w"

text \<open>
  The string-or-object normalisation of lines 182 to 191 and 207 to 209:
  \<^verbatim>\<open>x.get("token") if isinstance(x, dict) else x\<close>.
\<close>

definition token_of :: "json \<Rightarrow> json" where
  "token_of raw = (case raw of JObj kvs \<Rightarrow> lookup kvs ''token'' JNull | _ \<Rightarrow> raw)"

text \<open>\<^verbatim>\<open>authenticate\<close>, lines 146 to 158: the challenge identifier and the timestamp.\<close>

definition challenge_fields :: "json \<Rightarrow> int \<Rightarrow> exn + json \<times> json" where
  "challenge_fields challenge_resp now_ms =
     (case challenge_resp of
        JObj kvs \<Rightarrow>
          (let challenge_id = py_or (py_or (lookup kvs ''challenge'' JNull)
                                           (lookup kvs ''referenceNumber'' JNull))
                                    (lookup kvs ''challengeKey'' JNull)
           in if \<not> truthy challenge_id then Inl (KSeFAuthError (NoChallengeId (map fst kvs)))
              else Inr (challenge_id,
                        py_or (py_or (lookup kvs ''timestampMs'' JNull) (lookup kvs ''timestamp'' JNull))
                              (JInt now_ms)))
      | _ \<Rightarrow> Inl AttributeError)"

text \<open>\<^verbatim>\<open>authenticate\<close>, lines 167 to 173: the reference and the temporary token.\<close>

definition pending_auth :: "json \<Rightarrow> json \<Rightarrow> exn + json \<times> json" where
  "pending_auth auth_resp challenge_id =
     (case auth_resp of
        JObj kvs \<Rightarrow>
          (let auth_ref = py_or (py_or (lookup kvs ''referenceNumber'' JNull)
                                       (lookup kvs ''challenge'' JNull))
                                challenge_id
           in and_then (dict_get (lookup kvs ''authenticationToken'' (JObj [])) ''token'' JNull) (\<lambda>t.
                let auth_token_value = py_or t (lookup kvs ''token'' JNull)
                in if \<not> truthy auth_token_value
                   then Inl (KSeFAuthError (NoAuthenticationToken (map fst kvs)))
                   else Inr (auth_ref, auth_token_value)))
      | _ \<Rightarrow> Inl AttributeError)"

text \<open>
  \<^verbatim>\<open>authenticate\<close>, lines 181 to 197: both tokens are stored before the access token
  is checked, so they stay stored when the check raises.
\<close>

definition store_tokens :: "ksef_auth \<Rightarrow> json \<Rightarrow> (exn + json) \<times> ksef_auth" where
  "store_tokens self tokens =
     (case tokens of
        JObj kvs \<Rightarrow>
          (let access = py_or (lookup kvs ''accessToken'' JNull) (lookup kvs ''token'' JNull);
               refresh = lookup kvs ''refreshToken'' JNull;
               self' = self\<lparr>access_token := token_of access, refresh_token := token_of refresh\<rparr>
           in if \<not> truthy (access_token self')
              then (Inl (KSeFAuthError (NoAccessToken (map fst kvs) (lookup kvs ''accessToken'' JNull))), self')
              else (Inr (access_token self'), self'))
      | _ \<Rightarrow> (Inl AttributeError, self))"

definition authenticate ::
  "'k library \<Rightarrow> ksef_auth \<Rightarrow> world \<Rightarrow> (exn + json) option \<times> ksef_auth \<times> world" where
  "authenticate lib self w0 =
     (case get_public_key lib self w0 of
        (None, w1) \<Rightarrow> (None, self, w1)
      | (Some (Inl e), w1) \<Rightarrow> (Some (Inl e), self, w1)
      | (Some (Inr public_key_der), w1) \<Rightarrow>
     (case get_challenge self w1 of
        (None, w2) \<Rightarrow> (None, self, w2)
      | (Some (Inl e), w2) \<Rightarrow> (Some (Inl e), self, w2)
      | (Some (Inr challenge_resp), w2) \<Rightarrow>
     (case challenge_fields challenge_resp (clock_ms w2) of
        Inl e \<Rightarrow> (Some (Inl e), self, w2)
      | Inr (challenge_id, timestamp_ms) \<Rightarrow>
     (case encrypt_token lib self public_key_der timestamp_ms w2 of
        (Inl e, w3) \<Rightarrow> (Some (Inl e), self, w3)
      | (Inr encrypted_token, w3) \<Rightarrow>
     (case send_ksef_token self challenge_id encrypted_token w3 of
        (None, w4) \<Rightarrow> (None, self, w4)
      | (Some (Inl e), w4) \<Rightarrow> (Some (Inl e), self, w4)
      | (Some (Inr auth_resp), w4) \<Rightarrow>
     (case pending_auth auth_resp challenge_id of
        Inl e \<Rightarrow> (Some (Inl e), self, w4)
      | Inr (auth_ref, auth_token_value) \<Rightarrow>
     (case wait_for_auth lib self auth_ref auth_token_value w4 of
        (None, w5) \<Rightarrow> (None, self, w5)
      | (Some (Inl e), w5) \<Rightarrow> (Some (Inl e), self, w5)
      | (Some (Inr u), w5) \<Rightarrow>
     (case redeem_token lib self auth_token_value w5 of
        (None, w6) \<Rightarrow> (None, self, w6)
      | (Some (Inl e), w6) \<Rightarrow> (Some (Inl e), self, w6)
      | (Some (Inr tokens), w6) \<Rightarrow>
     (case store_tokens self tokens of (r, self') \<Rightarrow> (Some r, self', w6))))))))))"

text \<open>\<^verbatim>\<open>refresh\<close>, lines 205 to 211, on the decoded response.\<close>

definition refresh_tokens :: "ksef_auth \<Rightarrow> json \<Rightarrow> (exn + json) \<times> ksef_auth" where
  "refresh_tokens self data =
     (case data of
        JObj kvs \<Rightarrow>
          (let access = py_or (lookup kvs ''accessToken'' JNull) (lookup kvs ''token'' JNull);
               refresh' = lookup kvs ''refreshToken'' (refresh_token self);
               self' = self\<lparr>access_token := token_of access, refresh_token := token_of refresh'\<rparr>
           in (Inr (access_token self'), self'))
      | _ \<Rightarrow> (Inl AttributeError, self))"

definition refresh :: "ksef_auth \<Rightarrow> world \<Rightarrow> (exn + json) option \<times> ksef_auth \<times> world" where
  "refresh self w =
     (if \<not> truthy (refresh_token self) then (Some (Inl (KSeFAuthError NoRefreshToken)), self, w)
      else (case http_send AuthAPI
                   \<lparr>req_method = ''POST'', req_url = base_url self @ ''/auth/token/refresh'',
                    req_headers = HEADERS, req_params = [],
                    req_json = Some (JObj [(''refreshToken'', refresh_token self)]),
                    req_timeout = 30\<rparr> w of
              (None, w') \<Rightarrow> (None, self, w')
            | (Some resp, w') \<Rightarrow>
                (case and_then (auth_raise_for_status resp RefreshContext) (\<lambda>_. resp_json resp) of
                   Inl e \<Rightarrow> (Some (Inl e), self, w')
                 | Inr data \<Rightarrow> (case refresh_tokens self data of (r, self') \<Rightarrow> (Some r, self', w')))))"

definition get_auth_headers :: "'k library \<Rightarrow> ksef_auth \<Rightarrow> exn + (string \<times> string) list" where
  "get_auth_headers lib self =
     (if \<not> truthy (access_token self) then Inl (KSeFAuthError NoAccessTokenForHeaders)
      else Inr [(''Content-Type'', ''application/json''), (''Accept'', ''application/json''),
                (''Authorization'', ''Bearer '' @ py_str lib (access_token self))])"

section \<open>\<^verbatim>\<open>ksef_invoices.py\<close>: class \<^verbatim>\<open>KSeFInvoices\<close>\<close>

definition SLEEP_BETWEEN_WINDOWS :: int where
  "SLEEP_BETWEEN_WINDOWS = 185"

definition SUBJECT_TYPE_LABELS :: "(string \<times> string) list" where
  "SUBJECT_TYPE_LABELS =
     [(''Subject1'', ''Wystawione (sprzeda'' @ [CHR 0xC5, CHR 0xBC] @ '')''),
      (''Subject2'', ''Otrzymane (zakupy/koszty)'')]"

text \<open>\<^verbatim>\<open>SUBJECT_TYPE_LABELS.get(subject_type, subject_type)\<close>.\<close>

definition label_of :: "string \<Rightarrow> string" where
  "label_of subject_type =
     (case map_of SUBJECT_TYPE_LABELS subject_type of Some l \<Rightarrow> l | None \<Rightarrow> subject_type)"

text \<open>
  The fetcher holds a reference to the \<^verbatim>\<open>KSeFAuth\<close> object; nothing else uses that
  object while the fetcher runs, so the record owns it.
\<close>

record ksef_invoices =
  inv_base_url :: string
  auth_headers :: "(string \<times> string) list"
  page_size :: int
  auth :: "ksef_auth option"

definition KSeFInvoices ::
  "string \<Rightarrow> (string \<times> string) list \<Rightarrow> int \<Rightarrow> ksef_auth option \<Rightarrow> ksef_invoices" where
  "KSeFInvoices base_url' auth_headers' page_size' auth' =
     \<lparr>inv_base_url = base_url', auth_headers = auth_headers',
      page_size = min (max page_size' 1) 1000, auth = auth'\<rparr>"

definition inv_raise_for_status :: "http_response \<Rightarrow> int \<Rightarrow> string \<Rightarrow> exn + unit" where
  "inv_raise_for_status resp page_offset date_from =
     (if \<not> ok resp
      then Inl (KSeFInvoiceError
                 (QueryHttpStatus page_offset date_from (status_code resp) (error_detail resp)))
      else Inr ())"

definition query_request :: "ksef_invoices \<Rightarrow> string \<Rightarrow> string \<Rightarrow> string \<Rightarrow> int \<Rightarrow> http_request" where
  "query_request self subject_type date_from date_to page_offset =
     \<lparr>req_method = ''POST'', req_url = inv_base_url self @ ''/invoices/query/metadata'',
      req_headers = auth_headers self,
      req_params = [(''pageSize'', JInt (page_size self)), (''pageOffset'', JInt page_offset)],
      req_json = Some (JObj [(''subjectType'', JStr subject_type),
                   (''dateRange'', JObj [(''dateType'', JStr ''Invoicing''),
                                         (''from'', JStr date_from), (''to'', JStr date_to)])]),
      req_timeout = 60\<rparr>"

text \<open>Line 68: \<^verbatim>\<open>int(resp.headers.get("Retry-After", SLEEP_BETWEEN_WINDOWS)) + 2\<close>, in seconds.\<close>

definition retry_after_of :: "http_response \<Rightarrow> exn + int" where
  "retry_after_of resp =
     (case map_of (headers resp) ''Retry-After'' of
        None \<Rightarrow> Inr (SLEEP_BETWEEN_WINDOWS + 2)
      | Some v \<Rightarrow> and_then (int_of_str v) (\<lambda>n. Inr (n + 2)))"

text \<open>
  \<^verbatim>\<open>_query_page\<close>: the loop of lines 58 to 81, \<^verbatim>\<open>attempt\<close> running from 1 to 5.
  \<^verbatim>\<open>time.sleep\<close> raises \<^verbatim>\<open>ValueError\<close> on a negative duration.
\<close>

function query_page_loop ::
  "'k library \<Rightarrow> ksef_invoices \<Rightarrow> string \<Rightarrow> string \<Rightarrow> string \<Rightarrow> int \<Rightarrow> nat \<Rightarrow> world
     \<Rightarrow> (exn + json) option \<times> ksef_invoices \<times> world" where
  "query_page_loop lib self subject_type date_from date_to page_offset attempt w =
     (if 5 < attempt
      then (Some (Inl (KSeFInvoiceError (QueryRetryLimit page_offset date_from))), self, w)
      else
        (case http_send QueryAPI (query_request self subject_type date_from date_to page_offset) w of
           (None, w1) \<Rightarrow> (None, self, w1)
         | (Some resp, w1) \<Rightarrow>
             (case (if status_code resp = 401 then auth self else None) of
                Some a \<Rightarrow>
                  (case authenticate lib a w1 of
                     (None, a', w2) \<Rightarrow> (None, self\<lparr>auth := Some a'\<rparr>, w2)
                   | (Some (Inl e), a', w2) \<Rightarrow> (Some (Inl e), self\<lparr>auth := Some a'\<rparr>, w2)
                   | (Some (Inr token), a', w2) \<Rightarrow>
                       (case get_auth_headers lib a' of
                          Inl e \<Rightarrow> (Some (Inl e), self\<lparr>auth := Some a'\<rparr>, w2)
                        | Inr hs \<Rightarrow>
                            query_page_loop lib (self\<lparr>auth := Some a', auth_headers := hs\<rparr>)
                              subject_type date_from date_to page_offset (attempt + 1) w2))
              | None \<Rightarrow>
                  if status_code resp = 429 then
                    (case retry_after_of resp of
                       Inl e \<Rightarrow> (Some (Inl e), self, w1)
                     | Inr retry_after \<Rightarrow>
                         if retry_after < 0 then (Some (Inl ValueError), self, w1)
                         else query_page_loop lib self subject_type date_from date_to page_offset
                                (attempt + 1) (sleep (retry_after * 1000) w1))
                  else
                    (case and_then (inv_raise_for_status resp page_offset date_from)
                            (\<lambda>_. resp_json resp) of
                       Inl e \<Rightarrow> (Some (Inl e), self, w1)
                     | Inr data \<Rightarrow> (Some (Inr data), self, w1)))))"
  by pat_completeness auto
termination
  by (relation "measure (\<lambda>(lib, self, st, df, dt, off, attempt, w). 6 - attempt)") auto

declare query_page_loop.simps [simp del]

definition query_page ::
  "'k library \<Rightarrow> ksef_invoices \<Rightarrow> string \<Rightarrow> string \<Rightarrow> string \<Rightarrow> int \<Rightarrow> world
     \<Rightarrow> (exn + json) option \<times> ksef_invoices \<times> world" where
  "query_page lib self subject_type date_from date_to page_offset w =
     query_page_loop lib self subject_type date_from date_to page_offset 1 w"

subsection \<open>The authentication calls leave the query script alone\<close>

lemma http_send_auth_queries:
  "http_send AuthAPI rq w = (r, w') \<Longrightarrow> query_replies w' = query_replies w"
  by (auto simp: http_send_def Let_def split: list.splits)

lemma auth_call_queries:
  "auth_call rq h w = (r, w') \<Longrightarrow> query_replies w' = query_replies w"
  by (auto simp: auth_call_def split: prod.splits option.splits dest: http_send_auth_queries)

lemma sleep_queries [simp]: "query_replies (sleep ms w) = query_replies w"
  by (simp add: sleep_def)

lemma encrypt_token_queries:
  "encrypt_token lib self der ts w = (r, w') \<Longrightarrow> query_replies w' = query_replies w"
  by (auto simp: encrypt_token_def next_seed_def Let_def split: option.splits list.splits prod.splits)

lemma wait_for_auth_loop_queries:
  "wait_for_auth_loop rq attempt max_retries w = (r, w') \<Longrightarrow> query_replies w' = query_replies w"
proof (induction rq attempt max_retries w rule: wait_for_auth_loop.induct)
  case (1 rq attempt max_retries w)
  show ?case
  proof (cases "max_retries < attempt")
    case True
    then show ?thesis using "1.prems" by (simp add: wait_for_auth_loop.simps)
  next
    case False
    obtain ro w1 where s: "http_send AuthAPI rq w = (ro, w1)" by (cases "http_send AuthAPI rq w")
    note q = http_send_auth_queries [OF s]
    show ?thesis
    proof (cases ro)
      case None
      then show ?thesis using "1.prems" False s q by (simp add: wait_for_auth_loop.simps)
    next
      case (Some resp)
      show ?thesis
      proof (cases "poll_response resp")
        case (Inl e)
        then show ?thesis using "1.prems" False s q Some by (simp add: wait_for_auth_loop.simps)
      next
        case (Inr b)
        show ?thesis
        proof (cases b)
          case True
          then show ?thesis using "1.prems" False s q Some Inr by (simp add: wait_for_auth_loop.simps)
        next
          case b: False
          have "wait_for_auth_loop rq (attempt + 1) max_retries (sleep 1500 w1) = (r, w')"
            using "1.prems" False s Some Inr b by (simp add: wait_for_auth_loop.simps)
          moreover have "b = False" using b by simp
          ultimately show ?thesis using "1.IH" [OF False s [symmetric] Some Inr] q by simp
        qed
      qed
    qed
  qed
qed

lemma authenticate_queries:
  assumes "authenticate lib self w = (r, self', w')"
  shows "query_replies w' = query_replies w"
  using assms unfolding authenticate_def get_public_key_def get_challenge_def send_ksef_token_def
    redeem_token_def wait_for_auth_def
  by (auto split: prod.splits option.splits sum.splits
      dest!: auth_call_queries encrypt_token_queries wait_for_auth_loop_queries)

subsection \<open>The branches of \<open>query_page_loop\<close>\<close>

text \<open>The world after a request has gone out.\<close>

definition sent :: "http_request \<Rightarrow> world \<Rightarrow> world" where
  "sent rq w = w\<lparr>trace := trace w @ [Request rq]\<rparr>"

lemma http_send_query:
  "http_send QueryAPI rq w =
     (case query_replies w of
        [] \<Rightarrow> (None, sent rq w)
      | r # rs \<Rightarrow> (Some r, (sent rq w)\<lparr>query_replies := rs\<rparr>))"
  by (simp add: http_send_def sent_def Let_def split: list.splits)

lemma http_send_auth:
  "http_send AuthAPI rq w =
     (case auth_replies w of
        [] \<Rightarrow> (None, sent rq w)
      | r # rs \<Rightarrow> (Some r, (sent rq w)\<lparr>auth_replies := rs\<rparr>))"
  by (simp add: http_send_def sent_def Let_def split: list.splits)

lemma query_page_loop_cases [consumes 1, case_names limit blocked auth_blocked auth_failed
    headers_failed reauth retry_header negative retry failed page]:
  assumes "query_page_loop lib self st df dt off attempt w = res"
  obtains
    (limit) "5 < attempt" "res = (Some (Inl (KSeFInvoiceError (QueryRetryLimit off df))), self, w)"
  | (blocked) "attempt \<le> 5" "query_replies w = []"
      "res = (None, self, sent (query_request self st df dt off) w)"
  | (auth_blocked) resp rest a a' w2 where "attempt \<le> 5" "query_replies w = resp # rest"
      "status_code resp = 401" "auth self = Some a"
      "authenticate lib a ((sent (query_request self st df dt off) w)\<lparr>query_replies := rest\<rparr>) = (None, a', w2)"
      "res = (None, self\<lparr>auth := Some a'\<rparr>, w2)"
  | (auth_failed) resp rest a a' w2 e where "attempt \<le> 5" "query_replies w = resp # rest"
      "status_code resp = 401" "auth self = Some a"
      "authenticate lib a ((sent (query_request self st df dt off) w)\<lparr>query_replies := rest\<rparr>) = (Some (Inl e), a', w2)"
      "res = (Some (Inl e), self\<lparr>auth := Some a'\<rparr>, w2)"
  | (headers_failed) resp rest a a' w2 token e where "attempt \<le> 5" "query_replies w = resp # rest"
      "status_code resp = 401" "auth self = Some a"
      "authenticate lib a ((sent (query_request self st df dt off) w)\<lparr>query_replies := rest\<rparr>) = (Some (Inr token), a', w2)"
      "get_auth_headers lib a' = Inl e"
      "res = (Some (Inl e), self\<lparr>auth := Some a'\<rparr>, w2)"
  | (reauth) resp rest a a' w2 token hs where "attempt \<le> 5" "query_replies w = resp # rest"
      "status_code resp = 401" "auth self = Some a"
      "authenticate lib a ((sent (query_request self st df dt off) w)\<lparr>query_replies := rest\<rparr>) = (Some (Inr token), a', w2)"
      "get_auth_headers lib a' = Inr hs"
      "res = query_page_loop lib (self\<lparr>auth := Some a', auth_headers := hs\<rparr>) st df dt off (attempt + 1) w2"
  | (retry_header) resp rest e where "attempt \<le> 5" "query_replies w = resp # rest"
      "status_code resp = 429" "retry_after_of resp = Inl e"
      "res = (Some (Inl e), self, (sent (query_request self st df dt off) w)\<lparr>query_replies := rest\<rparr>)"
  | (negative) resp rest retry_after where "attempt \<le> 5" "query_replies w = resp # rest"
      "status_code resp = 429" "retry_after_of resp = Inr retry_after" "retry_after < 0"
      "res = (Some (Inl ValueError), self, (sent (query_request self st df dt off) w)\<lparr>query_replies := rest\<rparr>)"
  | (retry) resp rest retry_after where "attempt \<le> 5" "query_replies w = resp # rest"
      "status_code resp = 429" "retry_after_of resp = Inr retry_after" "0 \<le> retry_after"
      "res = query_page_loop lib self st df dt off (attempt + 1)
               (sleep (retry_after * 1000) ((sent (query_request self st df dt off) w)\<lparr>query_replies := rest\<rparr>))"
  | (failed) resp rest e where "attempt \<le> 5" "query_replies w = resp # rest"
      "status_code resp \<noteq> 429" "status_code resp = 401 \<longrightarrow> auth self = None"
      "and_then (inv_raise_for_status resp off df) (\<lambda>_. resp_json resp) = Inl e"
      "res = (Some (Inl e), self, (sent (query_request self st df dt off) w)\<lparr>query_replies := rest\<rparr>)"
  | (page) resp rest data where "attempt \<le> 5" "query_replies w = resp # rest"
      "status_code resp \<noteq> 429" "status_code resp = 401 \<longrightarrow> auth self = None"
      "and_then (inv_raise_for_status resp off df) (\<lambda>_. resp_json resp) = Inr data"
      "res = (Some (Inr data), self, (sent (query_request self st df dt off) w)\<lparr>query_replies := rest\<rparr>)"
proof (cases "5 < attempt")
  case True
  then show ?thesis using assms limit by (simp add: query_page_loop.simps)
next
  case a: False
  then have a5: "attempt \<le> 5" by simp
  let ?rq = "query_request self st df dt off"
  show ?thesis
  proof (cases "query_replies w")
    case Nil
    then show ?thesis using assms a blocked a5
      by (simp add: query_page_loop.simps http_send_query)
  next
    case (Cons resp rest)
    let ?w1 = "(sent ?rq w)\<lparr>query_replies := rest\<rparr>"
    have s: "http_send QueryAPI ?rq w = (Some resp, ?w1)"
      by (simp add: http_send_query Cons)
    show ?thesis
    proof (cases "if status_code resp = 401 then auth self else None")
      case (Some a0)
      then have st: "status_code resp = 401" "auth self = Some a0"
        by (auto split: if_splits)
      obtain ra a' w2 where au: "authenticate lib a0 ?w1 = (ra, a', w2)"
        by (cases "authenticate lib a0 ?w1") auto
      show ?thesis
      proof (cases ra)
        case None
        then show ?thesis using assms a s Some au auth_blocked [OF a5 Cons st]
          by (simp add: query_page_loop.simps)
      next
        case ra: (Some x)
        show ?thesis
        proof (cases x)
          case (Inl e)
          then show ?thesis using assms a s Some au ra auth_failed [OF a5 Cons st]
            by (simp add: query_page_loop.simps)
        next
          case (Inr token)
          show ?thesis
          proof (cases "get_auth_headers lib a'")
            case e: (Inl e)
            have "res = (Some (Inl e), self\<lparr>auth := Some a'\<rparr>, w2)"
              using assms a s Some au ra Inr e by (simp add: query_page_loop.simps)
            then show ?thesis using headers_failed [OF a5 Cons st _ e] au ra Inr by simp
          next
            case h: (Inr hs)
            have "res = query_page_loop lib (self\<lparr>auth := Some a', auth_headers := hs\<rparr>) st df dt off (attempt + 1) w2"
              using assms a s Some au ra Inr h
              by (subst (asm) query_page_loop.simps) simp
            then show ?thesis using reauth [OF a5 Cons st _ h] au ra Inr by simp
          qed
        qed
      qed
    next
      case None
      then have na: "status_code resp = 401 \<longrightarrow> auth self = None"
        by (auto split: if_splits)
      show ?thesis
      proof (cases "status_code resp = 429")
        case True
        show ?thesis
        proof (cases "retry_after_of resp")
          case (Inl e)
          then show ?thesis using assms a s None True retry_header [OF a5 Cons True]
            by (simp add: query_page_loop.simps)
        next
          case (Inr retry_after)
          show ?thesis
          proof (cases "retry_after < 0")
            case neg: True
            then show ?thesis using assms a s None True Inr negative [OF a5 Cons True Inr]
              by (simp add: query_page_loop.simps)
          next
            case False
            then have "res = query_page_loop lib self st df dt off (attempt + 1)
               (sleep (retry_after * 1000) ?w1)"
              using assms a s None True Inr by (subst (asm) query_page_loop.simps) simp
            then show ?thesis using retry [OF a5 Cons True Inr] False by simp
          qed
        qed
      next
        case False
        show ?thesis
        proof (cases "and_then (inv_raise_for_status resp off df) (\<lambda>_. resp_json resp)")
          case (Inl e)
          then show ?thesis using assms a s None False failed [OF a5 Cons False na]
            by (simp add: query_page_loop.simps)
        next
          case (Inr data)
          then show ?thesis using assms a s None False page [OF a5 Cons False na]
            by (simp add: query_page_loop.simps)
        qed
      qed
    qed
  qed
qed

lemma sent_queries [simp]: "query_replies (sent rq w) = query_replies w"
  by (simp add: sent_def)

lemma query_page_loop_consumes:
  "query_page_loop lib self st df dt off attempt w = (r, self', w') \<Longrightarrow>
     \<exists>pre. query_replies w = pre @ query_replies w' \<and> (attempt \<le> 5 \<longrightarrow> r \<noteq> None \<longrightarrow> pre \<noteq> [])"
proof (induction "6 - attempt" arbitrary: attempt self w)
  case 0
  then have "5 < attempt" by simp
  with "0.prems" show ?case by (simp add: query_page_loop.simps)
next
  case (Suc n)
  from Suc.prems show ?case
  proof (cases rule: query_page_loop_cases)
    case limit
    then show ?thesis using Suc.hyps(2) by simp
  next
    case blocked
    then show ?thesis by simp
  next
    case (auth_blocked resp rest a a' w2)
    then show ?thesis using authenticate_queries [OF auth_blocked(5)] by simp
  next
    case (auth_failed resp rest a a' w2 e)
    then show ?thesis using authenticate_queries [OF auth_failed(5)] by simp
  next
    case (headers_failed resp rest a a' w2 token e)
    then show ?thesis using authenticate_queries [OF headers_failed(5)] by simp
  next
    case (reauth resp rest a a' w2 token hs)
    have "n = 6 - (attempt + 1)" using Suc.hyps(2) by simp
    from Suc.hyps(1) [OF this reauth(7) [symmetric]]
    obtain pre where "query_replies w2 = pre @ query_replies w'" by blast
    then show ?thesis using authenticate_queries [OF reauth(5)] reauth(2) by simp
  next
    case (retry_header resp rest e)
    then show ?thesis by simp
  next
    case (negative resp rest retry_after)
    then show ?thesis by simp
  next
    case (retry resp rest retry_after)
    have "n = 6 - (attempt + 1)" using Suc.hyps(2) by simp
    from Suc.hyps(1) [OF this retry(6) [symmetric]]
    obtain pre where "rest = pre @ query_replies w'" by auto
    then show ?thesis using retry(2) by simp
  next
    case (failed resp rest e)
    then show ?thesis by simp
  next
    case (page resp rest data)
    then show ?thesis by simp
  qed
qed

lemma query_page_shorter:
  assumes "query_page lib self st df dt off w = (Some r, self', w')"
  shows "length (query_replies w') < length (query_replies w)"
proof -
  from query_page_loop_consumes [OF assms [unfolded query_page_def]]
  obtain pre where "query_replies w = pre @ query_replies w'" "pre \<noteq> []" by auto
  then show ?thesis by (cases pre) simp_all
qed

text \<open>
  Lines 99 to 103: every invoice of the page gets the key \<^verbatim>\<open>"_typ"\<close>. A page that is
  true but no list of dicts raises \<^verbatim>\<open>TypeError\<close> there.
\<close>

definition is_dict :: "json \<Rightarrow> bool" where
  "is_dict x = (case x of JObj kvs \<Rightarrow> True | _ \<Rightarrow> False)"

definition set_typ :: "string \<Rightarrow> json \<Rightarrow> json" where
  "set_typ label invoice =
     (case invoice of JObj kvs \<Rightarrow> JObj (dict_set kvs ''_typ'' (JStr label)) | _ \<Rightarrow> invoice)"

definition tag_invoices :: "string \<Rightarrow> json \<Rightarrow> exn + json list" where
  "tag_invoices label invoices =
     (case invoices of
        JArr xs \<Rightarrow> if list_all is_dict xs then Inr (map (set_typ label) xs) else Inl TypeError
      | _ \<Rightarrow> Inl TypeError)"

text \<open>
  \<^verbatim>\<open>_fetch_window\<close>, lines 91 to 107: what one page does to \<^verbatim>\<open>all_invoices\<close> and
  \<^verbatim>\<open>offset\<close>; the flag is true when the loop leaves through a \<^verbatim>\<open>break\<close>.
\<close>

definition page_step :: "string \<Rightarrow> json list \<Rightarrow> int \<Rightarrow> json \<Rightarrow> exn + (bool \<times> json list \<times> int)" where
  "page_step label all_invoices offset data =
     and_then (dict_get data ''invoices'' (JArr [])) (\<lambda>invoices.
       if \<not> truthy invoices then Inr (True, all_invoices, offset)
       else and_then (tag_invoices label invoices) (\<lambda>tagged.
              and_then (dict_get data ''hasMore'' (JBool False)) (\<lambda>has_more.
                Inr (\<not> truthy has_more, all_invoices @ tagged, offset + int (length tagged)))))"

text \<open>
  \<^verbatim>\<open>_fetch_window\<close>: the loop of lines 89 to 109 with \<^verbatim>\<open>all_invoices\<close> and \<^verbatim>\<open>offset\<close> as
  arguments.
\<close>

function fetch_window_loop ::
  "'k library \<Rightarrow> ksef_invoices \<Rightarrow> string \<Rightarrow> string \<Rightarrow> string \<Rightarrow> json list \<Rightarrow> int \<Rightarrow> world
     \<Rightarrow> (exn + json list) option \<times> ksef_invoices \<times> world" where
  "fetch_window_loop lib self subject_type date_from date_to all_invoices offset w =
     (case query_page lib self subject_type date_from date_to offset w of
        (None, self1, w1) \<Rightarrow> (None, self1, w1)
      | (Some (Inl e), self1, w1) \<Rightarrow> (Some (Inl e), self1, w1)
      | (Some (Inr data), self1, w1) \<Rightarrow>
          (case page_step (label_of subject_type) all_invoices offset data of
             Inl e \<Rightarrow> (Some (Inl e), self1, w1)
           | Inr (True, all_invoices', offset') \<Rightarrow> (Some (Inr all_invoices'), self1, w1)
           | Inr (False, all_invoices', offset') \<Rightarrow>
               fetch_window_loop lib self1 subject_type date_from date_to all_invoices' offset'
                 (sleep 300 w1)))"
  by pat_completeness auto
termination
  by (relation "measure (\<lambda>(lib, self, st, df, dt, acc, off, w). length (query_replies w))")
     (auto dest: query_page_shorter [OF sym])

declare fetch_window_loop.simps [simp del]

definition fetch_window ::
  "'k library \<Rightarrow> ksef_invoices \<Rightarrow> string \<Rightarrow> string \<Rightarrow> string \<Rightarrow> world
     \<Rightarrow> (exn + json list) option \<times> ksef_invoices \<times> world" where
  "fetch_window lib self subject_type date_from date_to w =
     fetch_window_loop lib self subject_type date_from date_to [] 0 w"

text \<open>\<^verbatim>\<open>to_iso\<close> on a date: \<^verbatim>\<open>strftime("%Y-%m-%dT%H:%M:%S.000Z")\<close>, the year printed on four digits.\<close>

definition to_iso :: "date \<Rightarrow> bool \<Rightarrow> string" where
  "to_iso d end_of_day =
     zero_pad 4 (year d) @ ''-'' @ zero_pad 2 (month d) @ ''-'' @ zero_pad 2 (day d)
       @ (if end_of_day then ''T23:59:59.000Z'' else ''T00:00:00.000Z'')"

text \<open>
  \<^verbatim>\<open>fetch_all\<close>: the loop of lines 148 to 167 with \<^verbatim>\<open>all_invoices\<close> and \<^verbatim>\<open>window_start\<close> as
  arguments. \<^verbatim>\<open>window_num\<close> and \<^verbatim>\<open>total_windows\<close> only feed the log lines.
\<close>

function fetch_all_loop ::
  "'k library \<Rightarrow> ksef_invoices \<Rightarrow> string \<Rightarrow> json list \<Rightarrow> date \<Rightarrow> date \<Rightarrow> world
     \<Rightarrow> (exn + json list) option \<times> ksef_invoices \<times> world" where
  "fetch_all_loop lib self subject_type all_invoices window_start dt_to w =
     (if date_le window_start dt_to then
        (case window_end_of window_start dt_to of
           Inl e \<Rightarrow> (Some (Inl e), self, w)
         | Inr window_end \<Rightarrow>
             (case fetch_window lib self subject_type
                     (to_iso window_start False) (to_iso window_end True) w of
                (None, self1, w1) \<Rightarrow> (None, self1, w1)
              | (Some (Inl e), self1, w1) \<Rightarrow> (Some (Inl e), self1, w1)
              | (Some (Inr batch), self1, w1) \<Rightarrow>
                  (case add_one_day window_end of
                     Inl e \<Rightarrow> (Some (Inl e), self1, w1)
                   | Inr window_start' \<Rightarrow>
                       fetch_all_loop lib self1 subject_type (all_invoices @ batch) window_start' dt_to
                         (if date_le window_start' dt_to
                          then sleep (SLEEP_BETWEEN_WINDOWS * 1000) w1 else w1))))
      else (Some (Inr all_invoices), self, w))"
  by pat_completeness auto
termination
  by (relation "measure (\<lambda>(lib, self, st, acc, window_start, dt_to, w). windows_left window_start dt_to)")
     (simp_all add: windows_left_decreases)

declare fetch_all_loop.simps [simp del]

text \<open>
  \<^verbatim>\<open>fetch_all\<close> on the two parsed dates of lines 131 and 132; \<^verbatim>\<open>_count_windows\<close> runs
  first and an exception of its date arithmetic ends the call.
\<close>

definition fetch_all ::
  "'k library \<Rightarrow> ksef_invoices \<Rightarrow> string \<Rightarrow> date \<Rightarrow> date \<Rightarrow> world
     \<Rightarrow> (exn + json list) option \<times> ksef_invoices \<times> world" where
  "fetch_all lib self subject_type dt_from dt_to w =
     (case count_windows dt_from dt_to of
        Inl e \<Rightarrow> (Some (Inl e), self, w)
      | Inr total_windows \<Rightarrow> fetch_all_loop lib self subject_type [] dt_from dt_to w)"

text \<open>
  The windows of a list fetched one after the other, with the pause of line 167 between
  two windows: what \<open>fetch_all_loop\<close> does once the windows are known.
\<close>

fun fetch_windows ::
  "'k library \<Rightarrow> ksef_invoices \<Rightarrow> string \<Rightarrow> json list \<Rightarrow> (date \<times> date) list \<Rightarrow> world
     \<Rightarrow> (exn + json list) option \<times> ksef_invoices \<times> world" where
  "fetch_windows lib self subject_type all_invoices [] w = (Some (Inr all_invoices), self, w)"
| "fetch_windows lib self subject_type all_invoices (win # rest) w =
     (case fetch_window lib self subject_type (to_iso (fst win) False) (to_iso (snd win) True) w of
        (None, self1, w1) \<Rightarrow> (None, self1, w1)
      | (Some (Inl e), self1, w1) \<Rightarrow> (Some (Inl e), self1, w1)
      | (Some (Inr batch), self1, w1) \<Rightarrow>
          fetch_windows lib self1 subject_type (all_invoices @ batch) rest
            (if rest \<noteq> [] then sleep (SLEEP_BETWEEN_WINDOWS * 1000) w1 else w1))"

lemma fetch_all_loop_windows:
  "date_windows s t = Inr ws \<Longrightarrow>
     fetch_all_loop lib self st acc s t w = fetch_windows lib self st acc ws w"
proof (induction s t arbitrary: ws self acc w rule: date_windows.induct)
  case (1 s t)
  from date_windows_cases [OF "1.prems"] show ?case
  proof (elim disjE conjE exE)
    assume "\<not> date_le s t" "ws = []"
    then show ?thesis by (simp add: fetch_all_loop.simps)
  next
    fix e s' ws'
    assume h: "date_le s t" "window_end_of s t = Inr e" "add_one_day e = Inr s'"
      "date_windows s' t = Inr ws'" "ws = (s, e) # ws'"
    have ne: "date_le s' t \<longleftrightarrow> ws' \<noteq> []"
      using date_windows_cases [OF h(4)] by auto
    note ih = "1.IH" [OF h(1,2,3,4)]
    show ?thesis
      by (subst fetch_all_loop.simps) (simp add: h ih ne split: prod.splits option.splits sum.splits)
  qed
qed

lemmas date_eval = valid_date_def days_in_month_def isleap_def MINYEAR_def MAXYEAR_def
  date_le_def date_lt_def date_min_def window_end_of_def add_relativedelta_months_def
  mk_datetime_def sub_one_day_def add_one_day_def Let_def

lemma year_2025_windows:
  "date_windows \<lparr>year = 2025, month = 1, day = 1\<rparr> \<lparr>year = 2025, month = 12, day = 31\<rparr> =
     Inr [(\<lparr>year = 2025, month = 1, day = 1\<rparr>, \<lparr>year = 2025, month = 3, day = 31\<rparr>),
          (\<lparr>year = 2025, month = 4, day = 1\<rparr>, \<lparr>year = 2025, month = 6, day = 30\<rparr>),
          (\<lparr>year = 2025, month = 7, day = 1\<rparr>, \<lparr>year = 2025, month = 9, day = 30\<rparr>),
          (\<lparr>year = 2025, month = 10, day = 1\<rparr>, \<lparr>year = 2025, month = 12, day = 31\<rparr>)]"
  by (simp add: date_windows.simps date_eval)

subsection \<open>Forward rules for the loops\<close>

lemma query_page_loop_page:
  assumes "attempt \<le> 5" "query_replies w = resp # rest" "status_code resp \<noteq> 429"
    "status_code resp = 401 \<longrightarrow> auth self = None"
  shows "query_page_loop lib self st df dt off attempt w =
           (Some (and_then (inv_raise_for_status resp off df) (\<lambda>_. resp_json resp)), self,
            (sent (query_request self st df dt off) w)\<lparr>query_replies := rest\<rparr>)"
proof -
  have n: "(if status_code resp = 401 then auth self else None) = None"
    using assms(4) by simp
  show ?thesis
    using assms(1,2,3)
    by (subst query_page_loop.simps) (simp add: http_send_query n split: sum.splits)
qed




lemma fetch_window_loop_raise:
  "query_page lib self st df dt off w = (Some (Inl e), self1, w1) \<Longrightarrow>
     fetch_window_loop lib self st df dt acc off w = (Some (Inl e), self1, w1)"
  by (simp add: fetch_window_loop.simps)

lemma fetch_all_loop_raise:
  "date_le s t \<Longrightarrow> window_end_of s t = Inr e \<Longrightarrow>
   fetch_window lib self st (to_iso s False) (to_iso e True) w = (Some (Inl x), self1, w1) \<Longrightarrow>
     fetch_all_loop lib self st acc s t w = (Some (Inl x), self1, w1)"
  by (simp add: fetch_all_loop.simps)

text \<open>Fixtures for the concrete runs below: a toy library and an empty world.\<close>

definition toy_library :: "string library" where
  "toy_library =
     \<lparr>b64decode = (\<lambda>s. Some s), b64encode = (\<lambda>s. s),
      load_der_public_key = (\<lambda>der. if der = ''rsa-key'' then Some der else None),
      load_der_x509_certificate = (\<lambda>der. if der = ''certificate'' then Some ''rsa-key'' else None),
      encrypt = (\<lambda>k pad seed m. if length m \<le> 190 then Some (rev m) else None),
      repr = (\<lambda>x. ''...'')\<rparr>"

definition empty_world :: world where
  "empty_world = \<lparr>auth_replies = [], query_replies = [], trace = [], clock_ms = 0, seeds = []\<rparr>"

definition reply :: "int \<Rightarrow> (string \<times> string) list \<Rightarrow> body \<Rightarrow> http_response" where
  "reply code hs b = \<lparr>status_code = code, headers = hs, body = b\<rparr>"

definition script_world :: "http_response list \<Rightarrow> http_response list \<Rightarrow> world" where
  "script_world auth_script query_script =
     \<lparr>auth_replies = auth_script, query_replies = query_script, trace = [], clock_ms = 0, seeds = []\<rparr>"

definition demo_fetcher :: "ksef_auth option \<Rightarrow> ksef_invoices" where
  "demo_fetcher a =
     KSeFInvoices ''https://api-test.ksef.mf.gov.pl/api/v2'' [(''Authorization'', ''Bearer old'')] 100 a"

lemmas fixture_defs = reply_def script_world_def demo_fetcher_def KSeFInvoices_def empty_world_def







text \<open>A concrete handshake: the replies of the five endpoints, in order.\<close>

definition key_reply :: http_response where
  "key_reply = reply 200 [] (JsonBody (JArr [JObj [(''certificate'', JStr ''rsa-key'')]]))"

definition challenge_reply :: http_response where
  "challenge_reply = reply 200 []
     (JsonBody (JObj [(''challenge'', JStr ''CH-1''), (''timestampMs'', JInt 1752236636015)]))"

definition token_reply :: http_response where
  "token_reply = reply 202 []
     (JsonBody (JObj [(''referenceNumber'', JStr ''REF-1''),
                      (''authenticationToken'', JObj [(''token'', JStr ''TEMP'')])]))"

definition status_reply :: "int \<Rightarrow> http_response" where
  "status_reply code = reply 200 []
     (JsonBody (JObj [(''status'', JObj [(''code'', JInt code), (''description'', JStr ''opis''),
                                         (''details'', JArr [JStr ''szczegol''])])]))"

definition redeem_reply :: "(string \<times> json) list \<Rightarrow> http_response" where
  "redeem_reply kvs = reply 200 [] (JsonBody (JObj kvs))"

definition demo_auth :: ksef_auth where
  "demo_auth = KSeFAuth ''5260250274'' ''secret'' ''test''"

lemmas auth_eval = authenticate_def get_public_key_def get_challenge_def send_ksef_token_def
  redeem_token_def wait_for_auth_def auth_call_def http_send_auth sent_def sleep_def
  public_key_of_response_def auth_raise_for_status_def ok_def resp_json_def and_then_def
  dict_get_def lookup_def py_or_def challenge_fields_def pending_auth_def store_tokens_def
  token_of_def encrypt_token_def load_public_key_def token_plaintext_def next_seed_def py_str_def bearer_headers_def
  poll_response_def py_ge_int_def wait_for_auth_loop.simps error_detail_def Let_def
  str_int_def str_digits.simps digit_char_def

lemmas handshake_defs = key_reply_def challenge_reply_def token_reply_def status_reply_def
  redeem_reply_def demo_auth_def KSeFAuth_def toy_library_def

subsection \<open>Polling\<close>

lemma wait_for_auth_loop_step:
  assumes "attempt \<le> max_retries" "auth_replies w = resp # rest"
  shows "wait_for_auth_loop rq attempt max_retries w =
           (case poll_response resp of
              Inl e \<Rightarrow> (Some (Inl e), (sent rq w)\<lparr>auth_replies := rest\<rparr>)
            | Inr True \<Rightarrow> (Some (Inr ()), (sent rq w)\<lparr>auth_replies := rest\<rparr>)
            | Inr False \<Rightarrow> wait_for_auth_loop rq (attempt + 1) max_retries
                             (sleep 1500 ((sent rq w)\<lparr>auth_replies := rest\<rparr>)))"
  using assms by (subst wait_for_auth_loop.simps) (simp add: http_send_auth)

text \<open>The world after \<open>n\<close> polls that each found the handshake pending, and one more request.\<close>

definition after_polls :: "http_request \<Rightarrow> nat \<Rightarrow> http_response list \<Rightarrow> world \<Rightarrow> world" where
  "after_polls rq n rest w =
     w\<lparr>auth_replies := rest,
       trace := trace w @ concat (replicate n [Request rq, Sleep 1500]) @ [Request rq],
       clock_ms := clock_ms w + 1500 * int n\<rparr>"

lemma wait_for_auth_loop_pending:
  "auth_replies w = pre @ r # post \<Longrightarrow> list_all (\<lambda>p. poll_response p = Inr False) pre \<Longrightarrow>
   attempt + length pre \<le> max_retries \<Longrightarrow>
     wait_for_auth_loop rq attempt max_retries w =
       (case poll_response r of
          Inl e \<Rightarrow> (Some (Inl e), after_polls rq (length pre) post w)
        | Inr True \<Rightarrow> (Some (Inr ()), after_polls rq (length pre) post w)
        | Inr False \<Rightarrow> wait_for_auth_loop rq (attempt + length pre + 1) max_retries
                         (sleep 1500 (after_polls rq (length pre) post w)))"
proof (induction pre arbitrary: attempt w)
  case Nil
  have z: "after_polls rq 0 post w = (sent rq w)\<lparr>auth_replies := post\<rparr>"
    by (simp add: after_polls_def sent_def)
  show ?case
    using wait_for_auth_loop_step [of attempt max_retries w r post rq] Nil
    by (cases "poll_response r") (auto simp: z split: bool.splits)
next
  case (Cons p pre)
  let ?w1 = "sleep 1500 ((sent rq w)\<lparr>auth_replies := pre @ r # post\<rparr>)"
  have s: "wait_for_auth_loop rq attempt max_retries w =
             wait_for_auth_loop rq (attempt + 1) max_retries ?w1"
    using wait_for_auth_loop_step [of attempt max_retries w p "pre @ r # post" rq] Cons.prems
    by simp
  have a: "after_polls rq (length pre) post ?w1 = after_polls rq (length (p # pre)) post w"
    by (simp add: after_polls_def sleep_def sent_def algebra_simps)
  have "auth_replies ?w1 = pre @ r # post" by (simp add: sleep_def)
  moreover have "list_all (\<lambda>p. poll_response p = Inr False) pre" using Cons.prems(2) by simp
  moreover have "attempt + 1 + length pre \<le> max_retries" using Cons.prems(3) by simp
  ultimately have "wait_for_auth_loop rq (attempt + 1) max_retries ?w1 =
       (case poll_response r of
          Inl e \<Rightarrow> (Some (Inl e), after_polls rq (length pre) post ?w1)
        | Inr True \<Rightarrow> (Some (Inr ()), after_polls rq (length pre) post ?w1)
        | Inr False \<Rightarrow> wait_for_auth_loop rq (attempt + 1 + length pre + 1) max_retries
                         (sleep 1500 (after_polls rq (length pre) post ?w1)))"
    by (rule Cons.IH)
  moreover have "attempt + 1 + length pre + 1 = attempt + length (p # pre) + 1" by simp
  ultimately show ?case
    unfolding s a by (simp only:)
qed

text \<open>
  A rejection, in the spec's words: HTTP 200 whose body holds a \<^verbatim>\<open>status\<close> object with a
  numeric \<^verbatim>\<open>code\<close> of 400 or more.
\<close>

definition rejection :: "http_response \<Rightarrow> int \<Rightarrow> (string \<times> json) list \<Rightarrow> bool" where
  "rejection resp code status_obj =
     (status_code resp = 200 \<and> 400 \<le> code \<and> map_of status_obj ''code'' = Some (JInt code)
      \<and> (case body resp of
            JsonBody (JObj kvs) \<Rightarrow> map_of kvs ''status'' = Some (JObj status_obj)
          | _ \<Rightarrow> False))"

lemma rejection_raises:
  assumes "rejection resp code status_obj"
  shows "poll_response resp =
           Inl (KSeFAuthError (AuthRejected (JInt code)
                  (lookup status_obj ''description'' (JStr []))
                  (lookup status_obj ''details'' (JArr []))))"
  using assms
  by (auto simp: rejection_def poll_response_def resp_json_def and_then_def dict_get_def
      lookup_def py_ge_int_def split: body.splits json.splits)

text \<open>The request of a poll, lines 98 and 99.\<close>

definition poll_request :: "'k library \<Rightarrow> ksef_auth \<Rightarrow> json \<Rightarrow> json \<Rightarrow> http_request" where
  "poll_request lib self reference_number auth_token =
     \<lparr>req_method = ''GET'', req_url = base_url self @ ''/auth/'' @ py_str lib reference_number,
      req_headers = bearer_headers lib auth_token, req_params = [], req_json = None,
      req_timeout = 30\<rparr>"

subsection \<open>The HTTP calls of \<^verbatim>\<open>KSeFAuth\<close>\<close>



definition public_key_request :: "ksef_auth \<Rightarrow> http_request" where
  "public_key_request self =
     \<lparr>req_method = ''GET'', req_url = base_url self @ ''/security/public-key-certificates'',
      req_headers = HEADERS, req_params = [], req_json = None, req_timeout = 30\<rparr>"

definition challenge_request :: "ksef_auth \<Rightarrow> http_request" where
  "challenge_request self =
     \<lparr>req_method = ''POST'', req_url = base_url self @ ''/auth/challenge'',
      req_headers = HEADERS, req_params = [], req_json = Some (JObj []), req_timeout = 30\<rparr>"

definition ksef_token_request :: "ksef_auth \<Rightarrow> json \<Rightarrow> string \<Rightarrow> http_request" where
  "ksef_token_request self challenge encrypted_token =
     \<lparr>req_method = ''POST'', req_url = base_url self @ ''/auth/ksef-token'',
      req_headers = HEADERS, req_params = [],
      req_json = Some (JObj [(''challenge'', challenge),
        (''contextIdentifier'', JObj [(''type'', JStr ''Nip''), (''value'', JStr (nip self))]),
        (''encryptedToken'', JStr encrypted_token)]),
      req_timeout = 30\<rparr>"


definition refresh_request :: "ksef_auth \<Rightarrow> http_request" where
  "refresh_request self =
     \<lparr>req_method = ''POST'', req_url = base_url self @ ''/auth/token/refresh'',
      req_headers = HEADERS, req_params = [],
      req_json = Some (JObj [(''refreshToken'', refresh_token self)]), req_timeout = 30\<rparr>"

subsection \<open>Pages\<close>

lemma query_page_loop_returns:
  "query_page_loop lib self st df dt off attempt w = (Some (Inr data), self', w') \<Longrightarrow>
     \<exists>pre resp. query_replies w = pre @ resp # query_replies w' \<and> resp_json resp = Inr data
        \<and> ok resp \<and> status_code resp \<noteq> 429"
proof (induction "6 - attempt" arbitrary: attempt self w)
  case 0
  then have "5 < attempt" by simp
  with "0.prems" show ?case by (simp add: query_page_loop.simps)
next
  case (Suc n)
  from Suc.prems show ?case
  proof (cases rule: query_page_loop_cases)
    case (reauth resp rest a a' w2 token hs)
    have "n = 6 - (attempt + 1)" using Suc.hyps(2) by simp
    from Suc.hyps(1) [OF this reauth(7) [symmetric]]
    obtain pre r where "query_replies w2 = pre @ r # query_replies w'" "resp_json r = Inr data"
      "ok r" "status_code r \<noteq> 429" by blast
    then have "query_replies w = (resp # pre) @ r # query_replies w'" "resp_json r = Inr data"
      "ok r" "status_code r \<noteq> 429"
      using authenticate_queries [OF reauth(5)] reauth(2) by simp_all
    then show ?thesis by blast
  next
    case (retry resp rest retry_after)
    have "n = 6 - (attempt + 1)" using Suc.hyps(2) by simp
    from Suc.hyps(1) [OF this retry(6) [symmetric]]
    obtain pre r where "rest = pre @ r # query_replies w'" "resp_json r = Inr data"
      "ok r" "status_code r \<noteq> 429" by auto
    then have "query_replies w = (resp # pre) @ r # query_replies w'" "resp_json r = Inr data"
      "ok r" "status_code r \<noteq> 429"
      using retry(2) by simp_all
    then show ?thesis by blast
  next
    case (page resp rest data')
    then have "query_replies w = [] @ resp # query_replies w'" "resp_json resp = Inr data"
      "ok resp" "status_code resp \<noteq> 429"
      by (auto simp: and_then_def inv_raise_for_status_def split: sum.splits if_splits)
    then show ?thesis by blast
  qed simp_all
qed

text \<open>
  The spec's stopping condition on a decoded page: it reports no further pages, or it
  returns zero records.
\<close>

definition page_invoices :: "json \<Rightarrow> json" where
  "page_invoices data = (case data of JObj kvs \<Rightarrow> lookup kvs ''invoices'' (JArr []) | _ \<Rightarrow> JNull)"

definition page_has_more :: "json \<Rightarrow> json" where
  "page_has_more data = (case data of JObj kvs \<Rightarrow> lookup kvs ''hasMore'' (JBool False) | _ \<Rightarrow> JNull)"

definition final_page :: "json \<Rightarrow> bool" where
  "final_page data = (\<not> truthy (page_has_more data) \<or> \<not> truthy (page_invoices data))"

text \<open>
  A well-formed answer of the query endpoint: HTTP 200 with a JSON object whose
  \<^verbatim>\<open>invoices\<close> is a list of objects and whose \<^verbatim>\<open>hasMore\<close> is a boolean.
\<close>

definition page_of :: "http_response \<Rightarrow> (json list \<times> bool) option" where
  "page_of resp =
     (case body resp of
        JsonBody (JObj kvs) \<Rightarrow>
          (case lookup kvs ''invoices'' (JArr []) of
             JArr records \<Rightarrow>
               (case lookup kvs ''hasMore'' (JBool False) of
                  JBool has_more \<Rightarrow>
                    if status_code resp = 200 \<and> list_all is_dict records
                    then Some (records, has_more) else None
                | _ \<Rightarrow> None)
           | _ \<Rightarrow> None)
      | _ \<Rightarrow> None)"

definition page_reply :: "http_response \<Rightarrow> json list \<Rightarrow> bool \<Rightarrow> bool" where
  "page_reply resp records has_more = (page_of resp = Some (records, has_more))"

definition more_page :: "http_response \<Rightarrow> bool" where
  "more_page resp =
     (case page_of resp of Some (records, has_more) \<Rightarrow> has_more \<and> records \<noteq> [] | None \<Rightarrow> False)"

definition last_page :: "http_response \<Rightarrow> bool" where
  "last_page resp =
     (case page_of resp of Some (records, has_more) \<Rightarrow> records = [] \<or> \<not> has_more | None \<Rightarrow> False)"

lemma page_replyD:
  assumes "page_reply resp records has_more"
  obtains kvs where "status_code resp = 200" "list_all is_dict records"
    "body resp = JsonBody (JObj kvs)" "lookup kvs ''invoices'' (JArr []) = JArr records"
    "lookup kvs ''hasMore'' (JBool False) = JBool has_more"
  using assms
  by (auto simp: page_reply_def page_of_def split: body.splits json.splits if_splits)

lemma page_step_stops:
  "page_step label acc off data = Inr (True, recs, off') \<Longrightarrow> final_page data"
  by (auto simp: page_step_def and_then_def dict_get_def final_page_def page_invoices_def
      page_has_more_def split: json.splits if_splits sum.splits)

lemma query_page_on_page:
  assumes "query_replies w = resp # rest" "page_reply resp records has_more"
  shows "\<exists>data. query_page lib self st df dt off w =
           (Some (Inr data), self, (sent (query_request self st df dt off) w)\<lparr>query_replies := rest\<rparr>)
         \<and> page_step label acc off' data =
             (if records = [] then Inr (True, acc, off')
              else Inr (\<not> has_more, acc @ map (set_typ label) records, off' + int (length records)))"
proof -
  from assms(2) obtain kvs where k: "status_code resp = 200" "list_all is_dict records"
    "body resp = JsonBody (JObj kvs)" "lookup kvs ''invoices'' (JArr []) = JArr records"
    "lookup kvs ''hasMore'' (JBool False) = JBool has_more"
    by (rule page_replyD)
  have "and_then (inv_raise_for_status resp off df) (\<lambda>_. resp_json resp) = Inr (JObj kvs)"
    using k(1,3) by (simp add: and_then_def inv_raise_for_status_def ok_def resp_json_def)
  then have "query_page lib self st df dt off w =
           (Some (Inr (JObj kvs)), self, (sent (query_request self st df dt off) w)\<lparr>query_replies := rest\<rparr>)"
    using query_page_loop_page [of 1 w resp rest self lib st df dt off] assms(1) k(1)
    by (simp add: query_page_def)
  moreover have "page_step label acc off' (JObj kvs) =
             (if records = [] then Inr (True, acc, off')
              else Inr (\<not> has_more, acc @ map (set_typ label) records, off' + int (length records)))"
    using k(2,4,5) by (simp add: page_step_def and_then_def dict_get_def tag_invoices_def)
  ultimately show ?thesis by blast
qed

lemma fetch_window_loop_more:
  assumes "query_replies w = resp # rest" "more_page resp"
  shows "\<exists>acc' off'. fetch_window_loop lib self st df dt acc off w =
           fetch_window_loop lib self st df dt acc' off'
             (sleep 300 ((sent (query_request self st df dt off) w)\<lparr>query_replies := rest\<rparr>))"
proof -
  from assms(2) obtain records where r: "page_reply resp records True" "records \<noteq> []"
    by (auto simp: more_page_def page_reply_def split: option.splits)
  from query_page_on_page [OF assms(1) r(1), of lib self st df dt off "label_of st" acc off] r(2)
  obtain data where "query_page lib self st df dt off w =
           (Some (Inr data), self, (sent (query_request self st df dt off) w)\<lparr>query_replies := rest\<rparr>)"
     "page_step (label_of st) acc off data =
        Inr (False, acc @ map (set_typ (label_of st)) records, off + int (length records))"
    by auto
  then have "fetch_window_loop lib self st df dt acc off w =
           fetch_window_loop lib self st df dt (acc @ map (set_typ (label_of st)) records)
             (off + int (length records))
             (sleep 300 ((sent (query_request self st df dt off) w)\<lparr>query_replies := rest\<rparr>))"
    by (subst fetch_window_loop.simps) simp
  then show ?thesis by blast
qed

lemma fetch_window_loop_last:
  assumes "query_replies w = resp # rest" "last_page resp"
  shows "\<exists>recs. fetch_window_loop lib self st df dt acc off w =
           (Some (Inr recs), self, (sent (query_request self st df dt off) w)\<lparr>query_replies := rest\<rparr>)"
proof -
  from assms(2) obtain records has_more where r: "page_reply resp records has_more"
    "records = [] \<or> has_more = False"
    by (auto simp: last_page_def page_reply_def split: option.splits)
  from query_page_on_page [OF assms(1) r(1), of lib self st df dt off "label_of st" acc off] r(2)
  obtain data recs where "query_page lib self st df dt off w =
           (Some (Inr data), self, (sent (query_request self st df dt off) w)\<lparr>query_replies := rest\<rparr>)"
     "page_step (label_of st) acc off data = Inr (True, recs, off + int (length records)) \<or>
      page_step (label_of st) acc off data = Inr (True, recs, off)"
    by (auto split: if_splits)
  then show ?thesis
    by (subst fetch_window_loop.simps) auto
qed

lemma fetch_window_loop_blocked:
  "query_replies w = [] \<Longrightarrow> fst (fetch_window_loop lib self st df dt acc off w) = None"
  by (subst fetch_window_loop.simps)
     (simp add: query_page_def query_page_loop.simps http_send_query)

lemma fetch_window_loop_never_returns:
  "list_all more_page (query_replies w) \<Longrightarrow> fst (fetch_window_loop lib self st df dt acc off w) = None"
proof (induction "query_replies w" arbitrary: w acc off)
  case Nil
  then show ?case by (simp add: fetch_window_loop_blocked)
next
  case (Cons resp rest)
  let ?w1 = "sleep 300 ((sent (query_request self st df dt off) w)\<lparr>query_replies := rest\<rparr>)"
  have q: "query_replies w = resp # rest" "more_page resp" "list_all more_page rest"
    using Cons.hyps(2) [symmetric] Cons.prems by simp_all
  from fetch_window_loop_more [OF q(1,2), of lib self st df dt acc off]
  obtain acc' off' where "fetch_window_loop lib self st df dt acc off w =
           fetch_window_loop lib self st df dt acc' off' ?w1" by blast
  moreover have "rest = query_replies ?w1" by (simp add: sleep_def)
  ultimately show ?case using Cons.hyps(1) [of ?w1 acc' off'] q(3) by simp
qed

lemma fetch_window_loop_returns:
  "query_replies w = pre @ resp # post \<Longrightarrow> list_all more_page pre \<Longrightarrow> last_page resp \<Longrightarrow>
     \<exists>recs w'. fetch_window_loop lib self st df dt acc off w = (Some (Inr recs), self, w')
        \<and> query_replies w' = post"
proof (induction pre arbitrary: w acc off)
  case Nil
  then show ?case
    using fetch_window_loop_last [of w resp post lib self st df dt acc off] by auto
next
  case (Cons p pre)
  let ?w1 = "sleep 300 ((sent (query_request self st df dt off) w)\<lparr>query_replies := pre @ resp # post\<rparr>)"
  from Cons.prems have q: "query_replies w = p # (pre @ resp # post)" "more_page p"
    "list_all more_page pre" by simp_all
  from fetch_window_loop_more [OF q(1,2), of lib self st df dt acc off]
  obtain acc' off' where "fetch_window_loop lib self st df dt acc off w =
           fetch_window_loop lib self st df dt acc' off' ?w1" by blast
  moreover have "query_replies ?w1 = pre @ resp # post" by (simp add: sleep_def)
  ultimately show ?case using Cons.IH [of ?w1 acc' off'] q(3) Cons.prems(3) by simp
qed

lemma fetch_window_loop_exit:
  "fetch_window_loop lib self st df dt acc off w = (Some (Inr recs), self', w') \<Longrightarrow>
     \<exists>pre resp data. query_replies w = pre @ resp # query_replies w'
        \<and> resp_json resp = Inr data \<and> final_page data"
proof (induction "length (query_replies w)" arbitrary: w acc off self rule: less_induct)
  case less
  obtain r s1 w1 where q: "query_page lib self st df dt off w = (r, s1, w1)"
    by (cases "query_page lib self st df dt off w") auto
  with less.prems obtain data where d: "r = Some (Inr data)"
    by (subst (asm) fetch_window_loop.simps) (auto split: option.splits sum.splits)
  from query_page_loop_returns [OF q [unfolded d query_page_def]]
  obtain pre resp where p: "query_replies w = pre @ resp # query_replies w1" "resp_json resp = Inr data"
    by blast
  obtain stop acc' off' where ps: "page_step (label_of st) acc off data = Inr (stop, acc', off')"
    using less.prems q d
    by (subst (asm) fetch_window_loop.simps) (auto split: sum.splits)
  show ?case
  proof (cases stop)
    case True
    then have ps': "page_step (label_of st) acc off data = Inr (True, acc', off')"
      using ps by simp
    have "w' = w1" using less.prems q d ps' by (subst (asm) fetch_window_loop.simps) simp
    then show ?thesis using p page_step_stops [OF ps'] by blast
  next
    case False
    then have ps': "page_step (label_of st) acc off data = Inr (False, acc', off')"
      using ps by simp
    have rec: "fetch_window_loop lib s1 st df dt acc' off' (sleep 300 w1) = (Some (Inr recs), self', w')"
      using less.prems q d ps' by (subst (asm) fetch_window_loop.simps) simp
    have "length (query_replies (sleep 300 w1)) < length (query_replies w)"
      using p(1) by simp
    from less.hyps [OF this rec]
    obtain pre' resp' data' where "query_replies (sleep 300 w1) = pre' @ resp' # query_replies w'"
      "resp_json resp' = Inr data'" "final_page data'" by blast
    then have "query_replies w = (pre @ resp # pre') @ resp' # query_replies w'"
      "resp_json resp' = Inr data'" "final_page data'"
      using p(1) by simp_all
    then show ?thesis by blast
  qed
qed

lemma upt_split: "k < n \<Longrightarrow> [0..<n] = [0..<k] @ k # [Suc k..<n]"
  using upt_add_eq_append [of 0 k "n - k"] upt_conv_Cons [of k n] by simp

subsection \<open>Recovery from 401 and 429\<close>









subsection \<open>Concrete runs\<close>

text \<open>A handshake that the server rejects on the first poll.\<close>

definition rejected_handshake :: world where
  "rejected_handshake =
     script_world [key_reply, challenge_reply, token_reply, status_reply 400,
                   redeem_reply [(''accessToken'', JStr ''ACCESS'')]] []"

text \<open>A handshake whose redeem response holds an access token and no refresh token.\<close>

definition handshake_without_refresh_token :: world where
  "handshake_without_refresh_token =
     script_world [key_reply, challenge_reply, token_reply, status_reply 200,
                   redeem_reply [(''accessToken'', JObj [(''token'', JStr ''ACCESS'')])]] []"

lemma handshake_without_refresh_token_run:
  "authenticate toy_library demo_auth handshake_without_refresh_token =
     (Some (Inr (JStr ''ACCESS'')), demo_auth\<lparr>access_token := JStr ''ACCESS'', refresh_token := JNull\<rparr>,
      snd (snd (authenticate toy_library demo_auth handshake_without_refresh_token)))"
  by (simp add: auth_eval handshake_defs fixture_defs handshake_without_refresh_token_def)

definition demo_page :: "json list \<Rightarrow> bool \<Rightarrow> http_response" where
  "demo_page records has_more =
     reply 200 [] (JsonBody (JObj [(''invoices'', JArr records), (''hasMore'', JBool has_more)]))"




section \<open>The claims\<close>

text \<open>
  C1 (amended). For every pair of dates \<open>range_start \<le> range_end\<close>: whenever the date
  arithmetic of \<^verbatim>\<open>fetch_all\<close> stays inside the range of \<^verbatim>\<open>datetime\<close>, which it does for
  every range ending before the year 9999, the loop of \<^verbatim>\<open>fetch_all\<close> fetches exactly the
  windows \<open>ws\<close> of \<open>date_windows\<close>, in order, and these are contiguous (each window starts
  one day after the end of the one before), do not overlap, each spans at most three
  calendar months minus one day, the first starts at \<open>range_start\<close> and the last ends at
  \<open>range_end\<close>.
\<close>

theorem date_windows_partition:
  assumes "valid_date range_start" "valid_date range_end" "date_le range_start range_end"
  shows "(year range_end < 9999 \<longrightarrow> (\<exists>ws. date_windows range_start range_end = Inr ws)) \<and>
         (\<forall>ws. date_windows range_start range_end = Inr ws \<longrightarrow>
            fetch_all_loop lib self st acc range_start range_end w = fetch_windows lib self st acc ws w
            \<and> ws \<noteq> [] \<and> fst (hd ws) = range_start \<and> snd (last ws) = range_end
            \<and> successively (\<lambda>a b. add_one_day (snd a) = Inr (fst b)) ws
            \<and> sorted_wrt (\<lambda>a b. date_lt (snd a) (fst b)) ws
            \<and> list_all (\<lambda>(a, b). spans_under_three_months a b) ws)"
proof (intro conjI impI allI)
  assume "year range_end < 9999"
  with assms show "\<exists>ws. date_windows range_start range_end = Inr ws"
    by (intro date_windows_total)
next
  fix ws assume ws: "date_windows range_start range_end = Inr ws"
  show "fetch_all_loop lib self st acc range_start range_end w = fetch_windows lib self st acc ws w"
    using ws by (rule fetch_all_loop_windows)
  show "ws \<noteq> []" "fst (hd ws) = range_start" "snd (last ws) = range_end"
    using date_windows_ends [OF ws assms(2,3)] by simp_all
  show "successively (\<lambda>a b. add_one_day (snd a) = Inr (fst b)) ws"
    using ws by (rule date_windows_contiguous)
  show "sorted_wrt (\<lambda>a b. date_lt (snd a) (fst b)) ws"
    using ws by (rule date_windows_disjoint)
  show "list_all (\<lambda>(a, b). spans_under_three_months a b) ws"
    using ws by (rule date_windows_spans)
qed

theorem date_windows_partition_witness:
  "valid_date \<lparr>year = 2025, month = 1, day = 1\<rparr>
   \<and> valid_date \<lparr>year = 2025, month = 12, day = 31\<rparr>
   \<and> date_le \<lparr>year = 2025, month = 1, day = 1\<rparr> \<lparr>year = 2025, month = 12, day = 31\<rparr>
   \<and> (\<exists>ws. date_windows \<lparr>year = 2025, month = 1, day = 1\<rparr> \<lparr>year = 2025, month = 12, day = 31\<rparr> = Inr ws
         \<and> length ws = 4
         \<and> fst (hd ws) = \<lparr>year = 2025, month = 1, day = 1\<rparr>
         \<and> snd (last ws) = \<lparr>year = 2025, month = 12, day = 31\<rparr>
         \<and> successively (\<lambda>a b. add_one_day (snd a) = Inr (fst b)) ws
         \<and> sorted_wrt (\<lambda>a b. date_lt (snd a) (fst b)) ws
         \<and> list_all (\<lambda>(a, b). spans_under_three_months a b) ws)"
proof -
  let ?a = "\<lparr>year = 2025, month = 1, day = 1\<rparr>" and ?b = "\<lparr>year = 2025, month = 12, day = 31\<rparr>"
  have h: "valid_date ?a" "valid_date ?b" "date_le ?a ?b"
    by (simp_all add: date_eval)
  obtain ws where ws: "date_windows ?a ?b = Inr ws" "length ws = 4"
    using year_2025_windows by simp
  from date_windows_partition [OF h, of toy_library undefined "[]" "[]" empty_world] ws(1)
  have "fst (hd ws) = ?a \<and> snd (last ws) = ?b
        \<and> successively (\<lambda>a b. add_one_day (snd a) = Inr (fst b)) ws
        \<and> sorted_wrt (\<lambda>a b. date_lt (snd a) (fst b)) ws
        \<and> list_all (\<lambda>(a, b). spans_under_three_months a b) ws"
    by blast
  with h ws show ?thesis by blast
qed

text \<open>
  C1 as stated fails on the last day that \<^verbatim>\<open>datetime\<close> can hold: for the range from
  9999-12-31 to 9999-12-31 the sum \<^verbatim>\<open>start + relativedelta(months=3)\<close> is in the year
  10000 and raises \<^verbatim>\<open>ValueError\<close>, in \<^verbatim>\<open>_count_windows\<close> already, so \<^verbatim>\<open>fetch_all\<close> generates
  no window and sends no request.
\<close>

theorem last_day_counterexample:
  "valid_date \<lparr>year = 9999, month = 12, day = 31\<rparr>
   \<and> date_le \<lparr>year = 9999, month = 12, day = 31\<rparr> \<lparr>year = 9999, month = 12, day = 31\<rparr>
   \<and> date_windows \<lparr>year = 9999, month = 12, day = 31\<rparr> \<lparr>year = 9999, month = 12, day = 31\<rparr> = Inl ValueError
   \<and> fetch_all toy_library (KSeFInvoices [] [] 100 None) ''Subject1''
        \<lparr>year = 9999, month = 12, day = 31\<rparr> \<lparr>year = 9999, month = 12, day = 31\<rparr> empty_world
      = (Some (Inl ValueError), KSeFInvoices [] [] 100 None, empty_world)"
  by (simp add: date_windows.simps fetch_all_def count_windows_def count_windows_loop.simps date_eval)

text \<open>
  C9. For every environment selector other than \<^verbatim>\<open>"test"\<close> and \<^verbatim>\<open>"prod"\<close>, the base URL of
  a new \<^verbatim>\<open>KSeFAuth\<close> and the \<^verbatim>\<open>BASE_URL\<close> of \<^verbatim>\<open>main.py\<close> are the test URL, and so not the
  production URL; both are plain dictionary lookups with a default and raise nothing.
  (\<^verbatim>\<open>main.py\<close> passes \<^verbatim>\<open>ENV\<close>, the variable \<^verbatim>\<open>KSEF_ENV\<close> stripped and lower-cased.)
\<close>

theorem unknown_env_selects_test:
  assumes "env \<noteq> ''test''" "env \<noteq> ''prod''"
  shows "base_url (KSeFAuth nip' token env) = ''https://api-test.ksef.mf.gov.pl/api/v2''
         \<and> BASE_URL env = ''https://api-test.ksef.mf.gov.pl/api/v2''
         \<and> base_url (KSeFAuth nip' token env) \<noteq> ''https://api.ksef.mf.gov.pl/api/v2''
         \<and> BASE_URL env \<noteq> ''https://api.ksef.mf.gov.pl/api/v2''"
  using assms by (simp add: KSeFAuth_def BASE_URL_def base_url_for_def BASE_URLS_def)

theorem unknown_env_selects_test_witness:
  "''production'' \<noteq> ''test'' \<and> ''production'' \<noteq> ''prod''
   \<and> base_url (KSeFAuth ''5260250274'' ''secret'' ''production'') = ''https://api-test.ksef.mf.gov.pl/api/v2''
   \<and> BASE_URL ''production'' = ''https://api-test.ksef.mf.gov.pl/api/v2''
   \<and> BASE_URL [] = ''https://api-test.ksef.mf.gov.pl/api/v2''"
  using unknown_env_selects_test [of "''production''" "''5260250274''" "''secret''"]
    unknown_env_selects_test [of "[]" "[]" "[]"]
  by simp



text \<open>
  C10. In a fetcher built without a \<^verbatim>\<open>KSeFAuth\<close> (\<^verbatim>\<open>auth = None\<close>), a page request answered
  with HTTP 401 is not retried, at whatever attempt it comes: \<^verbatim>\<open>_query_page\<close> raises the
  HTTP-status error holding 401 and the error body, after that one request, with no
  sleep and no authentication request; \<^verbatim>\<open>_fetch_window\<close> fails with the same error
  whatever it has accumulated, and so does \<^verbatim>\<open>fetch_all\<close>, which returns no records.
\<close>

theorem no_auth_401_fails:
  assumes "auth self = None" "query_replies w = resp # rest" "status_code resp = 401"
  shows "(attempt \<le> 5 \<longrightarrow>
            query_page_loop lib self st df dt off attempt w =
              (Some (Inl (KSeFInvoiceError (QueryHttpStatus off df 401 (error_detail resp)))), self,
               (sent (query_request self st df dt off) w)\<lparr>query_replies := rest\<rparr>))
       \<and> fetch_window_loop lib self st df dt acc off w =
              (Some (Inl (KSeFInvoiceError (QueryHttpStatus off df 401 (error_detail resp)))), self,
               (sent (query_request self st df dt off) w)\<lparr>query_replies := rest\<rparr>)
       \<and> (date_le s t \<longrightarrow> window_end_of s t = Inr e \<longrightarrow>
            fetch_all_loop lib self st acc' s t w =
              (Some (Inl (KSeFInvoiceError (QueryHttpStatus 0 (to_iso s False) 401 (error_detail resp)))), self,
               (sent (query_request self st (to_iso s False) (to_iso e True) 0) w)\<lparr>query_replies := rest\<rparr>))"
proof -
  have r: "and_then (inv_raise_for_status resp off' df') (\<lambda>_. resp_json resp)
            = Inl (KSeFInvoiceError (QueryHttpStatus off' df' 401 (error_detail resp)))" for off' df'
    using assms(3) by (simp add: and_then_def inv_raise_for_status_def ok_def)
  have q: "attempt' \<le> 5 \<Longrightarrow> query_page_loop lib self st df' dt' off' attempt' w =
              (Some (Inl (KSeFInvoiceError (QueryHttpStatus off' df' 401 (error_detail resp)))), self,
               (sent (query_request self st df' dt' off') w)\<lparr>query_replies := rest\<rparr>)"
    for attempt' df' dt' off'
    using query_page_loop_page [of attempt' w resp rest self lib st df' dt' off'] assms r by simp
  have p: "query_page lib self st df' dt' off' w =
              (Some (Inl (KSeFInvoiceError (QueryHttpStatus off' df' 401 (error_detail resp)))), self,
               (sent (query_request self st df' dt' off') w)\<lparr>query_replies := rest\<rparr>)"
    for df' dt' off'
    unfolding query_page_def by (rule q) simp
  show ?thesis
  proof (intro conjI impI)
    assume "attempt \<le> 5" then show "query_page_loop lib self st df dt off attempt w =
              (Some (Inl (KSeFInvoiceError (QueryHttpStatus off df 401 (error_detail resp)))), self,
               (sent (query_request self st df dt off) w)\<lparr>query_replies := rest\<rparr>)"
      by (rule q)
  next
    show "fetch_window_loop lib self st df dt acc off w =
              (Some (Inl (KSeFInvoiceError (QueryHttpStatus off df 401 (error_detail resp)))), self,
               (sent (query_request self st df dt off) w)\<lparr>query_replies := rest\<rparr>)"
      by (rule fetch_window_loop_raise [OF p])
  next
    assume st: "date_le s t" "window_end_of s t = Inr e"
    have "fetch_window lib self st (to_iso s False) (to_iso e True) w =
              (Some (Inl (KSeFInvoiceError (QueryHttpStatus 0 (to_iso s False) 401 (error_detail resp)))), self,
               (sent (query_request self st (to_iso s False) (to_iso e True) 0) w)\<lparr>query_replies := rest\<rparr>)"
      unfolding fetch_window_def by (rule fetch_window_loop_raise [OF p])
    then show "fetch_all_loop lib self st acc' s t w =
              (Some (Inl (KSeFInvoiceError (QueryHttpStatus 0 (to_iso s False) 401 (error_detail resp)))), self,
               (sent (query_request self st (to_iso s False) (to_iso e True) 0) w)\<lparr>query_replies := rest\<rparr>)"
      by (rule fetch_all_loop_raise [OF st])
  qed
qed

theorem no_auth_401_fails_witness:
  "auth (demo_fetcher None) = None
   \<and> query_replies (script_world [] [reply 401 [] (TextBody ''Unauthorized'')])
        = [reply 401 [] (TextBody ''Unauthorized'')]
   \<and> status_code (reply 401 [] (TextBody ''Unauthorized'')) = 401
   \<and> (3::nat) \<le> 5
   \<and> query_page_loop toy_library (demo_fetcher None) ''Subject1'' ''2025-01-01T00:00:00.000Z''
        ''2025-03-31T23:59:59.000Z'' 200 3 (script_world [] [reply 401 [] (TextBody ''Unauthorized'')])
      = (Some (Inl (KSeFInvoiceError
           (QueryHttpStatus 200 ''2025-01-01T00:00:00.000Z'' 401 (TextDetail ''Unauthorized'')))),
         demo_fetcher None,
         (sent (query_request (demo_fetcher None) ''Subject1'' ''2025-01-01T00:00:00.000Z''
                  ''2025-03-31T23:59:59.000Z'' 200)
            (script_world [] [reply 401 [] (TextBody ''Unauthorized'')]))\<lparr>query_replies := []\<rparr>)
   \<and> fetch_window_loop toy_library (demo_fetcher None) ''Subject1'' ''2025-01-01T00:00:00.000Z''
        ''2025-03-31T23:59:59.000Z'' [JObj []] 200
        (script_world [] [reply 401 [] (TextBody ''Unauthorized'')])
      = (Some (Inl (KSeFInvoiceError
           (QueryHttpStatus 200 ''2025-01-01T00:00:00.000Z'' 401 (TextDetail ''Unauthorized'')))),
         demo_fetcher None,
         (sent (query_request (demo_fetcher None) ''Subject1'' ''2025-01-01T00:00:00.000Z''
                  ''2025-03-31T23:59:59.000Z'' 200)
            (script_world [] [reply 401 [] (TextBody ''Unauthorized'')]))\<lparr>query_replies := []\<rparr>)
   \<and> date_le \<lparr>year = 2025, month = 1, day = 1\<rparr> \<lparr>year = 2025, month = 3, day = 31\<rparr>
   \<and> window_end_of \<lparr>year = 2025, month = 1, day = 1\<rparr> \<lparr>year = 2025, month = 3, day = 31\<rparr>
        = Inr \<lparr>year = 2025, month = 3, day = 31\<rparr>
   \<and> fst (fetch_all_loop toy_library (demo_fetcher None) ''Subject1'' [JObj []]
          \<lparr>year = 2025, month = 1, day = 1\<rparr> \<lparr>year = 2025, month = 3, day = 31\<rparr>
          (script_world [] [reply 401 [] (TextBody ''Unauthorized'')]))
      = Some (Inl (KSeFInvoiceError
           (QueryHttpStatus 0 ''2025-01-01T00:00:00.000Z'' 401 (TextDetail ''Unauthorized''))))"
proof -
  let ?r = "reply 401 [] (TextBody ''Unauthorized'')"
  let ?w = "script_world [] [?r]"
  have h: "auth (demo_fetcher None) = None" "query_replies ?w = ?r # []" "status_code ?r = 401"
    by (simp_all add: fixture_defs)
  have d: "date_le \<lparr>year = 2025, month = 1, day = 1\<rparr> \<lparr>year = 2025, month = 3, day = 31\<rparr>"
    "window_end_of \<lparr>year = 2025, month = 1, day = 1\<rparr> \<lparr>year = 2025, month = 3, day = 31\<rparr>
        = Inr \<lparr>year = 2025, month = 3, day = 31\<rparr>"
    by (simp_all add: date_eval)
  have e: "error_detail ?r = TextDetail ''Unauthorized''"
    by (simp add: error_detail_def reply_def)
  have i: "to_iso \<lparr>year = 2025, month = 1, day = 1\<rparr> False = ''2025-01-01T00:00:00.000Z''"
    by (simp add: to_iso_def zero_pad_def str_int_def str_digits.simps digit_char_def)
  have l: "(3::nat) \<le> 5" by simp
  note T = no_auth_401_fails [OF h, where lib = toy_library and st = "''Subject1''"
      and df = "''2025-01-01T00:00:00.000Z''" and dt = "''2025-03-31T23:59:59.000Z''" and off = 200
      and attempt = 3 and acc = "[JObj []]" and acc' = "[JObj []]"
      and s = "\<lparr>year = 2025, month = 1, day = 1\<rparr>" and t = "\<lparr>year = 2025, month = 3, day = 31\<rparr>"
      and e = "\<lparr>year = 2025, month = 3, day = 31\<rparr>", unfolded e i]
  from T [THEN conjunct1, rule_format, OF l] T [THEN conjunct2, THEN conjunct1]
    T [THEN conjunct2, THEN conjunct2, rule_format, OF d] h d l
  show ?thesis by simp
qed

text \<open>
  C6. In a polling run of \<^verbatim>\<open>authenticate\<close>, once every poll so far has found the handshake
  pending and fewer than 15 polls were made, a response that is HTTP 200 with an embedded
  status code of 400 or more ends \<^verbatim>\<open>_wait_for_auth\<close> at once with the rejection error,
  which carries the code, the server's description and its details: the request of
  that poll is the last event of the trace, so no poll and no sleep follows it, and
  \<^verbatim>\<open>authenticate\<close> fails with the same error without redeeming. When the rejection comes
  on the first poll, that poll is the only request of \<^verbatim>\<open>_wait_for_auth\<close>.
\<close>

theorem rejection_ends_polling:
  assumes "rejection resp code status_obj"
    and "auth_replies w = pre @ resp # post"
    and "list_all (\<lambda>p. poll_response p = Inr False) pre"
    and "length pre < 15"
  shows "wait_for_auth lib self reference_number auth_token w =
           (Some (Inl (KSeFAuthError (AuthRejected (JInt code)
                         (lookup status_obj ''description'' (JStr []))
                         (lookup status_obj ''details'' (JArr []))))),
            after_polls (poll_request lib self reference_number auth_token) (length pre) post w)
       \<and> (pre = [] \<longrightarrow>
            trace (snd (wait_for_auth lib self reference_number auth_token w))
              = trace w @ [Request (poll_request lib self reference_number auth_token)])
       \<and> (get_public_key lib self w0 = (Some (Inr der), w1) \<longrightarrow>
          get_challenge self w1 = (Some (Inr challenge_resp), w2) \<longrightarrow>
          challenge_fields challenge_resp (clock_ms w2) = Inr (challenge_id, timestamp_ms) \<longrightarrow>
          encrypt_token lib self der timestamp_ms w2 = (Inr encrypted_token, w3) \<longrightarrow>
          send_ksef_token self challenge_id encrypted_token w3 = (Some (Inr auth_resp), w) \<longrightarrow>
          pending_auth auth_resp challenge_id = Inr (reference_number, auth_token) \<longrightarrow>
            authenticate lib self w0 =
              (Some (Inl (KSeFAuthError (AuthRejected (JInt code)
                            (lookup status_obj ''description'' (JStr []))
                            (lookup status_obj ''details'' (JArr []))))),
               self,
               after_polls (poll_request lib self reference_number auth_token) (length pre) post w))"
proof -
  let ?rq = "poll_request lib self reference_number auth_token"
  let ?e = "KSeFAuthError (AuthRejected (JInt code)
                         (lookup status_obj ''description'' (JStr []))
                         (lookup status_obj ''details'' (JArr [])))"
  have "1 + length pre \<le> 15" using assms(4) by simp
  from wait_for_auth_loop_pending [OF assms(2,3) this, of ?rq]
  have w: "wait_for_auth lib self reference_number auth_token w
             = (Some (Inl ?e), after_polls ?rq (length pre) post w)"
    by (simp add: wait_for_auth_def poll_request_def rejection_raises [OF assms(1)])
  show ?thesis
  proof (intro conjI impI)
    show "wait_for_auth lib self reference_number auth_token w
             = (Some (Inl ?e), after_polls ?rq (length pre) post w)" by (rule w)
  next
    assume "pre = []"
    then show "trace (snd (wait_for_auth lib self reference_number auth_token w)) = trace w @ [Request ?rq]"
      by (simp add: w after_polls_def)
  next
    assume "get_public_key lib self w0 = (Some (Inr der), w1)"
      "get_challenge self w1 = (Some (Inr challenge_resp), w2)"
      "challenge_fields challenge_resp (clock_ms w2) = Inr (challenge_id, timestamp_ms)"
      "encrypt_token lib self der timestamp_ms w2 = (Inr encrypted_token, w3)"
      "send_ksef_token self challenge_id encrypted_token w3 = (Some (Inr auth_resp), w)"
      "pending_auth auth_resp challenge_id = Inr (reference_number, auth_token)"
    then show "authenticate lib self w0 = (Some (Inl ?e), self, after_polls ?rq (length pre) post w)"
      by (simp add: authenticate_def w)
  qed
qed

theorem rejection_ends_polling_witness:
  "rejection (status_reply 400) 400
     [(''code'', JInt 400), (''description'', JStr ''opis''), (''details'', JArr [JStr ''szczegol''])]
   \<and> authenticate toy_library demo_auth rejected_handshake
      = (Some (Inl (KSeFAuthError (AuthRejected (JInt 400) (JStr ''opis'') (JArr [JStr ''szczegol''])))),
         demo_auth,
         \<lparr>auth_replies = [redeem_reply [(''accessToken'', JStr ''ACCESS'')]], query_replies = [],
          trace = [Request (public_key_request demo_auth), Request (challenge_request demo_auth),
                   Request (ksef_token_request demo_auth (JStr ''CH-1'') (rev ''secret|1752236636015'')),
                   Request (poll_request toy_library demo_auth (JStr ''REF-1'') (JStr ''TEMP''))],
          clock_ms = 0, seeds = []\<rparr>)"
proof -
  let ?so = "[(''code'', JInt 400), (''description'', JStr ''opis''), (''details'', JArr [JStr ''szczegol''])]"
  let ?w1 = "snd (get_public_key toy_library demo_auth rejected_handshake)"
  let ?w2 = "snd (get_challenge demo_auth ?w1)"
  let ?enc = "rev ''secret|1752236636015''"
  let ?w4 = "snd (send_ksef_token demo_auth (JStr ''CH-1'') ?enc ?w2)"
  let ?post = "[redeem_reply [(''accessToken'', JStr ''ACCESS'')]]"
  have r: "rejection (status_reply 400) 400 ?so"
    by (simp add: rejection_def status_reply_def reply_def)
  have 1: "get_public_key toy_library demo_auth rejected_handshake = (Some (Inr ''rsa-key''), ?w1)"
    by (simp add: auth_eval handshake_defs fixture_defs rejected_handshake_def)
  have w1: "?w1 = \<lparr>auth_replies = [challenge_reply, token_reply, status_reply 400,
                   redeem_reply [(''accessToken'', JStr ''ACCESS'')]], query_replies = [],
                 trace = [Request (public_key_request demo_auth)], clock_ms = 0, seeds = []\<rparr>"
    by (simp add: auth_eval fixture_defs rejected_handshake_def public_key_request_def)
  have 2: "get_challenge demo_auth ?w1 =
             (Some (Inr (JObj [(''challenge'', JStr ''CH-1''), (''timestampMs'', JInt 1752236636015)])), ?w2)"
    unfolding w1 by (simp add: auth_eval handshake_defs fixture_defs)
  have w2: "?w2 = \<lparr>auth_replies = [token_reply, status_reply 400,
                   redeem_reply [(''accessToken'', JStr ''ACCESS'')]], query_replies = [],
                 trace = [Request (public_key_request demo_auth), Request (challenge_request demo_auth)],
                 clock_ms = 0, seeds = []\<rparr>"
    unfolding w1 by (simp add: auth_eval challenge_request_def)
  have 3: "challenge_fields (JObj [(''challenge'', JStr ''CH-1''), (''timestampMs'', JInt 1752236636015)])
             (clock_ms ?w2) = Inr (JStr ''CH-1'', JInt 1752236636015)"
    by (simp add: challenge_fields_def lookup_def py_or_def Let_def)
  have 4: "encrypt_token toy_library demo_auth ''rsa-key'' (JInt 1752236636015) ?w2 = (Inr ?enc, ?w2)"
    unfolding w2 by (simp add: auth_eval handshake_defs)
  have 5: "send_ksef_token demo_auth (JStr ''CH-1'') ?enc ?w2 =
             (Some (Inr (JObj [(''referenceNumber'', JStr ''REF-1''),
                               (''authenticationToken'', JObj [(''token'', JStr ''TEMP'')])])), ?w4)"
    unfolding w2 by (simp add: auth_eval handshake_defs fixture_defs)
  have w4: "?w4 = \<lparr>auth_replies = [status_reply 400, redeem_reply [(''accessToken'', JStr ''ACCESS'')]],
                 query_replies = [],
                 trace = [Request (public_key_request demo_auth), Request (challenge_request demo_auth),
                          Request (ksef_token_request demo_auth (JStr ''CH-1'') ?enc)],
                 clock_ms = 0, seeds = []\<rparr>"
    unfolding w2 by (simp add: auth_eval ksef_token_request_def)
  have 6: "pending_auth (JObj [(''referenceNumber'', JStr ''REF-1''),
                               (''authenticationToken'', JObj [(''token'', JStr ''TEMP'')])]) (JStr ''CH-1'')
             = Inr (JStr ''REF-1'', JStr ''TEMP'')"
    by (simp add: pending_auth_def lookup_def py_or_def dict_get_def and_then_def Let_def)
  have q: "auth_replies ?w4 = [] @ status_reply 400 # ?post"
    unfolding w4 by simp
  have p: "list_all (\<lambda>p. poll_response p = Inr False) []" "length ([] :: http_response list) < 15"
    by simp_all
  from rejection_ends_polling [OF r q p, THEN conjunct2, THEN conjunct2, rule_format, OF 1 2 3 4 5 6]
  have "authenticate toy_library demo_auth rejected_handshake =
          (Some (Inl (KSeFAuthError (AuthRejected (JInt 400)
                   (lookup ?so ''description'' (JStr [])) (lookup ?so ''details'' (JArr []))))),
           demo_auth,
           after_polls (poll_request toy_library demo_auth (JStr ''REF-1'') (JStr ''TEMP''))
             (length ([] :: http_response list)) ?post ?w4)" .
  then show ?thesis
    using r unfolding w4 by (simp add: after_polls_def lookup_def)
qed




text \<open>
  C7 (amended). \<^verbatim>\<open>refresh\<close> raises the error "no refresh token, call authenticate first"
  if and only if the session holds no refresh token (it is \<^verbatim>\<open>None\<close> or empty), and then
  sends nothing. A new session holds none; a successful \<^verbatim>\<open>authenticate\<close> stores the
  normalised \<^verbatim>\<open>refreshToken\<close> of the redeem response, which may be absent. With a refresh
  token, \<^verbatim>\<open>refresh\<close> posts it and, on a success response holding a JSON object, replaces
  the access token by the normalised \<^verbatim>\<open>accessToken\<close> (or \<^verbatim>\<open>token\<close>) and the refresh token by
  the normalised \<^verbatim>\<open>refreshToken\<close> of the response, keeping the current one when the
  response has none.
\<close>

theorem refresh_needs_refresh_token:
  "(fst (refresh self w) = Some (Inl (KSeFAuthError NoRefreshToken)) \<longleftrightarrow> \<not> truthy (refresh_token self))
   \<and> (\<not> truthy (refresh_token self) \<longrightarrow>
         refresh self w = (Some (Inl (KSeFAuthError NoRefreshToken)), self, w))
   \<and> refresh_token (KSeFAuth nip' token env) = JNull
   \<and> (store_tokens self0 (JObj tokens) = (Inr access, self) \<longrightarrow>
         access_token self = access \<and> truthy access
         \<and> access = token_of (py_or (lookup tokens ''accessToken'' JNull) (lookup tokens ''token'' JNull))
         \<and> refresh_token self = token_of (lookup tokens ''refreshToken'' JNull))
   \<and> (truthy (refresh_token self) \<longrightarrow> auth_replies w = resp # rest \<longrightarrow> ok resp \<longrightarrow>
       body resp = JsonBody (JObj kvs) \<longrightarrow>
         refresh self w =
           (Some (Inr (token_of (py_or (lookup kvs ''accessToken'' JNull) (lookup kvs ''token'' JNull)))),
            self\<lparr>access_token :=
                    token_of (py_or (lookup kvs ''accessToken'' JNull) (lookup kvs ''token'' JNull)),
                  refresh_token := token_of (lookup kvs ''refreshToken'' (refresh_token self))\<rparr>,
            (sent (refresh_request self) w)\<lparr>auth_replies := rest\<rparr>))"
proof (intro conjI impI)
  show "fst (refresh self w) = Some (Inl (KSeFAuthError NoRefreshToken)) \<longleftrightarrow> \<not> truthy (refresh_token self)"
    by (auto simp: refresh_def http_send_auth and_then_def auth_raise_for_status_def resp_json_def
        refresh_tokens_def Let_def split: list.splits sum.splits body.splits json.splits if_splits)
next
  assume "\<not> truthy (refresh_token self)"
  then show "refresh self w = (Some (Inl (KSeFAuthError NoRefreshToken)), self, w)"
    by (simp add: refresh_def)
next
  show "refresh_token (KSeFAuth nip' token env) = JNull" by (simp add: KSeFAuth_def)
next
  assume s: "store_tokens self0 (JObj tokens) = (Inr access, self)"
  then show "access_token self = access" "truthy access"
    "access = token_of (py_or (lookup tokens ''accessToken'' JNull) (lookup tokens ''token'' JNull))"
    "refresh_token self = token_of (lookup tokens ''refreshToken'' JNull)"
    by (auto simp: store_tokens_def Let_def split: if_splits)
next
  assume "truthy (refresh_token self)" "auth_replies w = resp # rest" "ok resp"
    "body resp = JsonBody (JObj kvs)"
  then show "refresh self w =
           (Some (Inr (token_of (py_or (lookup kvs ''accessToken'' JNull) (lookup kvs ''token'' JNull)))),
            self\<lparr>access_token :=
                    token_of (py_or (lookup kvs ''accessToken'' JNull) (lookup kvs ''token'' JNull)),
                  refresh_token := token_of (lookup kvs ''refreshToken'' (refresh_token self))\<rparr>,
            (sent (refresh_request self) w)\<lparr>auth_replies := rest\<rparr>)"
    by (simp add: refresh_def refresh_request_def http_send_auth and_then_def
        auth_raise_for_status_def resp_json_def refresh_tokens_def Let_def)
qed

theorem refresh_needs_refresh_token_witness:
  "\<not> truthy (refresh_token demo_auth)
   \<and> refresh demo_auth empty_world = (Some (Inl (KSeFAuthError NoRefreshToken)), demo_auth, empty_world)
   \<and> store_tokens demo_auth (JObj [(''accessToken'', JStr ''A1''), (''refreshToken'', JObj [(''token'', JStr ''R1'')])])
        = (Inr (JStr ''A1''), demo_auth\<lparr>access_token := JStr ''A1'', refresh_token := JStr ''R1''\<rparr>)
   \<and> truthy (refresh_token (demo_auth\<lparr>access_token := JStr ''A1'', refresh_token := JStr ''R1''\<rparr>))
   \<and> ok (redeem_reply [(''accessToken'', JObj [(''token'', JStr ''A2'')]), (''refreshToken'', JStr ''R2'')])
   \<and> refresh (demo_auth\<lparr>access_token := JStr ''A1'', refresh_token := JStr ''R1''\<rparr>)
        (script_world [redeem_reply [(''accessToken'', JObj [(''token'', JStr ''A2'')]),
                                     (''refreshToken'', JStr ''R2'')]] [])
      = (Some (Inr (JStr ''A2'')),
         demo_auth\<lparr>access_token := JStr ''A2'', refresh_token := JStr ''R2''\<rparr>,
         (sent (refresh_request (demo_auth\<lparr>access_token := JStr ''A1'', refresh_token := JStr ''R1''\<rparr>))
            (script_world [redeem_reply [(''accessToken'', JObj [(''token'', JStr ''A2'')]),
                                         (''refreshToken'', JStr ''R2'')]] []))\<lparr>auth_replies := []\<rparr>)"
proof -
  let ?a = "demo_auth\<lparr>access_token := JStr ''A1'', refresh_token := JStr ''R1''\<rparr>"
  let ?kvs = "[(''accessToken'', JObj [(''token'', JStr ''A2'')]), (''refreshToken'', JStr ''R2'')]"
  let ?w = "script_world [redeem_reply ?kvs] []"
  have n: "\<not> truthy (refresh_token demo_auth)" by (simp add: demo_auth_def KSeFAuth_def)
  have s: "store_tokens demo_auth (JObj [(''accessToken'', JStr ''A1''), (''refreshToken'', JObj [(''token'', JStr ''R1'')])])
        = (Inr (JStr ''A1''), ?a)"
    by (simp add: store_tokens_def lookup_def py_or_def token_of_def Let_def)
  have h: "truthy (refresh_token ?a)" "auth_replies ?w = redeem_reply ?kvs # []" "ok (redeem_reply ?kvs)"
    "body (redeem_reply ?kvs) = JsonBody (JObj ?kvs)"
    by (simp_all add: fixture_defs redeem_reply_def ok_def)
  note T = refresh_needs_refresh_token [where self = demo_auth and w = empty_world,
      THEN conjunct2, THEN conjunct1, rule_format, OF n]
  note U = refresh_needs_refresh_token [where self = ?a and w = ?w,
      THEN conjunct2, THEN conjunct2, THEN conjunct2, THEN conjunct2, rule_format, OF h]
  have "refresh ?a ?w = (Some (Inr (JStr ''A2'')),
         demo_auth\<lparr>access_token := JStr ''A2'', refresh_token := JStr ''R2''\<rparr>,
         (sent (refresh_request ?a) ?w)\<lparr>auth_replies := []\<rparr>)"
    using U by (simp add: lookup_def py_or_def token_of_def)
  with n s h T show ?thesis by simp
qed

text \<open>
  C7 as stated fails: here \<^verbatim>\<open>authenticate\<close> succeeds on a redeem response that holds an
  access token and no refresh token, and the \<^verbatim>\<open>refresh\<close> that follows still raises the
  missing-refresh-token error.
\<close>

theorem refresh_after_authenticate_counterexample:
  "fst (authenticate toy_library demo_auth handshake_without_refresh_token) = Some (Inr (JStr ''ACCESS''))
   \<and> fst (refresh (fst (snd (authenticate toy_library demo_auth handshake_without_refresh_token)))
             (snd (snd (authenticate toy_library demo_auth handshake_without_refresh_token))))
      = Some (Inl (KSeFAuthError NoRefreshToken))"
  by (subst (1 2) handshake_without_refresh_token_run) (simp add: refresh_def)

text \<open>
  C8. For every secret and timestamp, a credential that \<^verbatim>\<open>_encrypt_token\<close> returns is the
  base64 encoding of the encryption, under the key loaded from the server's bytes and
  with the padding OAEP(MGF1(SHA-256), SHA-256, no label), of exactly the bytes of
  \<^verbatim>\<open>"{secret}|{timestamp}"\<close>. So with a base64 decoder that inverts the encoder and a
  decryption that inverts the encryption under that key (the matching private key),
  decoding and decrypting the credential gives back that string; for an integer
  timestamp it is the secret, a bar and the decimal digits.
\<close>

theorem encrypted_token_round_trip:
  assumes "encrypt_token lib self public_key_der timestamp_ms w = (Inr credential, w')"
    and "\<And>x. b64decode lib (b64encode lib x) = Some x"
    and "\<And>k seed m c. load_public_key lib public_key_der = Some k \<Longrightarrow>
           encrypt lib k (OAEP (MGF1 SHA256) SHA256 None) seed m = Some c \<Longrightarrow> decrypt c = Some m"
  shows "(\<exists>public_key seed encrypted.
            load_public_key lib public_key_der = Some public_key
            \<and> encrypt lib public_key (OAEP (MGF1 SHA256) SHA256 None) seed
                 (ksef_token self @ ''|'' @ py_str lib timestamp_ms) = Some encrypted
            \<and> credential = b64encode lib encrypted)
       \<and> Option.bind (b64decode lib credential) decrypt
            = Some (ksef_token self @ ''|'' @ py_str lib timestamp_ms)
       \<and> (\<forall>n. timestamp_ms = JInt n \<longrightarrow>
            Option.bind (b64decode lib credential) decrypt = Some (ksef_token self @ ''|'' @ str_int n))"
proof -
  from assms(1) obtain public_key encrypted where
    k: "load_public_key lib public_key_der = Some public_key"
    and e: "encrypt lib public_key (OAEP (MGF1 SHA256) SHA256 None) (fst (next_seed w))
              (ksef_token self @ ''|'' @ py_str lib timestamp_ms) = Some encrypted"
    and c: "credential = b64encode lib encrypted"
    by (auto simp: encrypt_token_def token_plaintext_def token_padding_def Let_def
        split: option.splits prod.splits)
  have d: "Option.bind (b64decode lib credential) decrypt
            = Some (ksef_token self @ ''|'' @ py_str lib timestamp_ms)"
    using assms(2) assms(3) [OF k e] by (simp add: c)
  show ?thesis
  proof (intro conjI allI impI)
    show "\<exists>public_key seed encrypted.
            load_public_key lib public_key_der = Some public_key
            \<and> encrypt lib public_key (OAEP (MGF1 SHA256) SHA256 None) seed
                 (ksef_token self @ ''|'' @ py_str lib timestamp_ms) = Some encrypted
            \<and> credential = b64encode lib encrypted"
      using k e c by blast
    show "Option.bind (b64decode lib credential) decrypt
            = Some (ksef_token self @ ''|'' @ py_str lib timestamp_ms)" by (rule d)
  next
    fix n assume "timestamp_ms = JInt n"
    then show "Option.bind (b64decode lib credential) decrypt = Some (ksef_token self @ ''|'' @ str_int n)"
      using d by (simp add: py_str_def)
  qed
qed

theorem encrypted_token_round_trip_witness:
  "encrypt_token toy_library demo_auth ''certificate'' (JInt 1752236636015) empty_world
     = (Inr (rev ''secret|1752236636015''), empty_world)
   \<and> b64decode toy_library (b64encode toy_library ''abc'') = Some ''abc''
   \<and> load_public_key toy_library ''certificate'' = Some ''rsa-key''
   \<and> Option.bind (b64decode toy_library (rev ''secret|1752236636015'')) (\<lambda>c. Some (rev c))
       = Some ''secret|1752236636015''"
proof -
  have e: "encrypt_token toy_library demo_auth ''certificate'' (JInt 1752236636015) empty_world
     = (Inr (rev ''secret|1752236636015''), empty_world)"
    by (simp add: auth_eval handshake_defs fixture_defs)
  have b: "\<And>x. b64decode toy_library (b64encode toy_library x) = Some x"
    by (simp add: toy_library_def)
  have r: "\<And>k seed m c. load_public_key toy_library ''certificate'' = Some k \<Longrightarrow>
           encrypt toy_library k (OAEP (MGF1 SHA256) SHA256 None) seed m = Some c \<Longrightarrow>
           Some (rev c) = Some m"
    by (auto simp: toy_library_def split: if_splits)
  have k: "load_public_key toy_library ''certificate'' = Some ''rsa-key''"
    by (simp add: load_public_key_def toy_library_def)
  from encrypted_token_round_trip [OF e b r, THEN conjunct2, THEN conjunct2, rule_format, where n = 1752236636015]
  have "Option.bind (b64decode toy_library (rev ''secret|1752236636015'')) (\<lambda>c. Some (rev c))
       = Some (ksef_token demo_auth @ ''|'' @ str_int 1752236636015)"
    by simp
  then have "Option.bind (b64decode toy_library (rev ''secret|1752236636015'')) (\<lambda>c. Some (rev c))
       = Some ''secret|1752236636015''"
    by (simp add: demo_auth_def KSeFAuth_def str_int_def str_digits.simps digit_char_def)
  with e b k show ?thesis by simp
qed

text \<open>
  C4. The loop of \<^verbatim>\<open>_fetch_window\<close> returns only through a page that reports no further
  pages or holds no records: whenever it returns, the last reply it consumed decodes to
  such a page. It has no cap on the number of pages: against a server whose every answer
  is a non-empty page with \<^verbatim>\<open>hasMore = true\<close> it has no result after any number \<open>n\<close> of
  answers, and against a server whose first \<open>k\<close> answers are such pages and whose next
  answer has \<^verbatim>\<open>hasMore = false\<close> or no records it returns, having consumed exactly these
  \<open>k + 1\<close> answers. (An exception of a page request leaves the loop as an error, not as a
  result.)
\<close>

theorem pagination_stops_only_on_final_page:
  "(fetch_window_loop lib self st df dt acc off w = (Some (Inr recs), self', w') \<longrightarrow>
      (\<exists>pre resp data. query_replies w = pre @ resp # query_replies w'
          \<and> resp_json resp = Inr data \<and> final_page data))
   \<and> ((\<forall>i. more_page (server i)) \<longrightarrow>
        (\<forall>n. fst (fetch_window_loop lib self st df dt acc off
                     (w\<lparr>query_replies := map server [0..<n]\<rparr>)) = None))
   \<and> ((\<forall>i<k. more_page (server i)) \<longrightarrow> last_page (server k) \<longrightarrow>
        (\<forall>n>k. \<exists>recs w'. fetch_window_loop lib self st df dt acc off
                              (w\<lparr>query_replies := map server [0..<n]\<rparr>)
                            = (Some (Inr recs), self, w')
                          \<and> query_replies w' = map server [Suc k..<n]))"
proof (intro conjI impI allI)
  assume "fetch_window_loop lib self st df dt acc off w = (Some (Inr recs), self', w')"
  then show "\<exists>pre resp data. query_replies w = pre @ resp # query_replies w'
          \<and> resp_json resp = Inr data \<and> final_page data"
    by (rule fetch_window_loop_exit)
next
  fix n assume "\<forall>i. more_page (server i)"
  then have "list_all more_page (query_replies (w\<lparr>query_replies := map server [0..<n]\<rparr>))"
    by (simp add: list_all_iff)
  then show "fst (fetch_window_loop lib self st df dt acc off
                     (w\<lparr>query_replies := map server [0..<n]\<rparr>)) = None"
    by (rule fetch_window_loop_never_returns)
next
  fix n assume m: "\<forall>i<k. more_page (server i)" and l: "last_page (server k)" and n: "k < n"
  have "query_replies (w\<lparr>query_replies := map server [0..<n]\<rparr>)
          = map server [0..<k] @ server k # map server [Suc k..<n]"
    using upt_split [OF n] by simp
  moreover have "list_all more_page (map server [0..<k])"
    using m by (simp add: list_all_iff)
  ultimately show "\<exists>recs w'. fetch_window_loop lib self st df dt acc off
                              (w\<lparr>query_replies := map server [0..<n]\<rparr>)
                            = (Some (Inr recs), self, w')
                          \<and> query_replies w' = map server [Suc k..<n]"
    using l by (rule fetch_window_loop_returns)
qed

theorem pagination_stops_only_on_final_page_witness:
  "more_page (demo_page [JObj [(''ksefNumber'', JStr ''K1'')]] True)
   \<and> last_page (demo_page [JObj [(''ksefNumber'', JStr ''K2'')]] False)
   \<and> fst (fetch_window_loop toy_library (demo_fetcher None) ''Subject2'' ''2025-01-01T00:00:00.000Z''
             ''2025-03-31T23:59:59.000Z'' [] 0
             (empty_world\<lparr>query_replies :=
                map (\<lambda>i. demo_page [JObj [(''ksefNumber'', JStr ''K1'')]] True) [0..<7]\<rparr>)) = None
   \<and> (\<exists>recs w'. fetch_window_loop toy_library (demo_fetcher None) ''Subject2'' ''2025-01-01T00:00:00.000Z''
             ''2025-03-31T23:59:59.000Z'' [] 0
             (empty_world\<lparr>query_replies :=
                map (\<lambda>i. if i = 2 then demo_page [JObj [(''ksefNumber'', JStr ''K2'')]] False
                          else demo_page [JObj [(''ksefNumber'', JStr ''K1'')]] True) [0..<4]\<rparr>)
           = (Some (Inr recs), demo_fetcher None, w')
         \<and> length (query_replies w') = 1
         \<and> (\<exists>pre resp data.
               map (\<lambda>i. if i = 2 then demo_page [JObj [(''ksefNumber'', JStr ''K2'')]] False
                         else demo_page [JObj [(''ksefNumber'', JStr ''K1'')]] True) [0..<4]
                 = pre @ resp # query_replies w'
               \<and> resp_json resp = Inr data \<and> final_page data))"
proof -
  let ?m = "demo_page [JObj [(''ksefNumber'', JStr ''K1'')]] True"
  let ?l = "demo_page [JObj [(''ksefNumber'', JStr ''K2'')]] False"
  let ?srv = "\<lambda>i::nat. if i = 2 then ?l else ?m"
  let ?run = "\<lambda>w. fetch_window_loop toy_library (demo_fetcher None) ''Subject2''
      ''2025-01-01T00:00:00.000Z'' ''2025-03-31T23:59:59.000Z'' [] 0 w"
  have m: "more_page ?m"
    by (simp add: more_page_def page_of_def demo_page_def reply_def lookup_def is_dict_def)
  have l: "last_page ?l"
    by (simp add: last_page_def page_of_def demo_page_def reply_def lookup_def is_dict_def)
  note T = pagination_stops_only_on_final_page [where lib = toy_library and self = "demo_fetcher None"
      and st = "''Subject2''" and df = "''2025-01-01T00:00:00.000Z''"
      and dt = "''2025-03-31T23:59:59.000Z''" and acc = "[]" and off = 0]
  have a: "\<And>i::nat. more_page ((\<lambda>i. ?m) i)" using m by simp
  have n: "fst (?run (empty_world\<lparr>query_replies := map (\<lambda>i. ?m) [0..<7]\<rparr>)) = None"
    using T [where server = "\<lambda>i. ?m" and w = empty_world, THEN conjunct2, THEN conjunct1, rule_format, OF a]
    by simp
  have b: "\<And>i::nat. i < 2 \<Longrightarrow> more_page (?srv i)" "last_page (?srv 2)" using m l by simp_all
  from T [where server = ?srv and k = 2 and w = empty_world, THEN conjunct2, THEN conjunct2,
      rule_format, OF b, of 4]
  obtain recs w' where r: "?run (empty_world\<lparr>query_replies := map ?srv [0..<4]\<rparr>)
      = (Some (Inr recs), demo_fetcher None, w')" "query_replies w' = map ?srv [Suc 2..<4]"
    by auto
  from T [where w = "empty_world\<lparr>query_replies := map ?srv [0..<4]\<rparr>" and recs = recs
      and self' = "demo_fetcher None" and w' = w', THEN conjunct1, rule_format, OF r(1)]
  have e: "\<exists>pre resp data. map ?srv [0..<4] = pre @ resp # query_replies w'
               \<and> resp_json resp = Inr data \<and> final_page data"
    by simp
  have "length (query_replies w') = 1" using r(2) by simp
  with m l n r(1) e show ?thesis by blast
qed



end
